theory Spec2Isabelle
  imports Main "HOL-Library.AList" "HOL-Library.Sublist" "HOL-Library.Multiset"
begin

section \<open>The parse tree consumed by the indexer\<close>

text \<open>
  The indexer reads a Tree-sitter node through five things only: its \<open>type\<close> tag, its
  ordered \<open>children\<close>, \<open>child_by_field_name\<close>, its byte range and its start point.
  A node is modelled with exactly these. The field under which a node hangs below its
  parent is stored with the child (\<open>field_name\<close>), so \<open>child_by_field_name\<close> is the
  first child carrying that field. A Python \<open>str\<close> is represented by its UTF-8 bytes.
  A node object is truthy, so a test such as \<open>if name_node\<close> asks whether the field is
  present; a string is falsy exactly when it is empty.
\<close>

datatype node =
  Node (field_name: "string option") (ntype: string)
       (start_byte: nat) (end_byte: nat) (start_point: "nat \<times> nat")
       (children: "node list")

definition child_by_field_name :: "node \<Rightarrow> string \<Rightarrow> node option" where
  "child_by_field_name n name = find (\<lambda>c. field_name c = Some name) (children n)"

text \<open>\<open>tree_sitter_helpers.node_text\<close>: the slice \<open>source_bytes[start_byte:end_byte]\<close>.\<close>

definition node_text :: "string \<Rightarrow> node \<Rightarrow> string" where
  "node_text source_bytes n =
     take (end_byte n - start_byte n) (drop (start_byte n) source_bytes)"

text \<open>\<open>tree_sitter_helpers.node_point\<close>.\<close>

definition node_point :: "node \<Rightarrow> nat \<times> nat" where
  "node_point n = (fst (start_point n), snd (start_point n))"

section \<open>The data model (\<open>models/ast_models.py\<close>)\<close>

record MethodCall =
  mc_name :: string
  mc_receiver :: "string option"
  mc_line :: nat
  mc_col :: nat

record MethodInfo =
  mi_name :: string
  mi_params :: "string list"
  mi_return_type :: "string option"
  mi_line :: nat
  mi_col :: nat
  mi_calls :: "MethodCall list"

text \<open>
  A Python \<open>dict\<close> keeps insertion order, and the JSON export relies on it; it is an
  association list whose assignment overwrites in place or appends at the end.
\<close>

definition dict_get :: "('k \<times> 'v) list \<Rightarrow> 'k \<Rightarrow> 'v option" where
  "dict_get d k = map_of d k"

definition dict_contains :: "('k \<times> 'v) list \<Rightarrow> 'k \<Rightarrow> bool" where
  "dict_contains d k = (map_of d k \<noteq> None)"

definition dict_set :: "('k \<times> 'v) list \<Rightarrow> 'k \<Rightarrow> 'v \<Rightarrow> ('k \<times> 'v) list" where
  "dict_set d k v = AList.update k v d"

definition dict_keys :: "('k \<times> 'v) list \<Rightarrow> 'k set" where
  "dict_keys d = fst ` set d"

record ClassInfo =
  ci_simple_name :: string
  ci_fqcn :: string
  ci_line :: nat
  ci_col :: nat
  ci_methods :: "(string \<times> MethodInfo list) list"

text \<open>The in-memory index of a \<open>JavaIndexer\<close> instance.\<close>

record JavaIndexer =
  packages :: "string set"
  classes :: "(string \<times> ClassInfo) list"

datatype py_error = KeyError string | IndexError | NameError string | OSError string

type_synonym frame = "string \<times> nat \<times> nat"

section \<open>The indexer (\<open>indexer.py\<close>)\<close>

subsection \<open>\<open>_find_package\<close> and \<open>_fqcn\<close>\<close>

fun find_package_children :: "string \<Rightarrow> node list \<Rightarrow> string option" where
  "find_package_children source_bytes [] = None"
| "find_package_children source_bytes (child # rest) =
     (if ntype child = ''package_declaration''
      then (case child_by_field_name child ''name'' of
              Some name_node \<Rightarrow> Some (node_text source_bytes name_node)
            | None \<Rightarrow> find_package_children source_bytes rest)
      else find_package_children source_bytes rest)"

definition find_package :: "string \<Rightarrow> node \<Rightarrow> string option" where
  "find_package source_bytes root = find_package_children source_bytes (children root)"

fun str_join :: "string \<Rightarrow> string list \<Rightarrow> string" where
  "str_join sep [] = []"
| "str_join sep [x] = x"
| "str_join sep (x # y # ys) = x @ sep @ str_join sep (y # ys)"

text \<open>\<open>pkg + "." if pkg else ""\<close>: an absent and an empty package are both falsy.\<close>

definition fqcn :: "string option \<Rightarrow> string list \<Rightarrow> string" where
  "fqcn pkg class_names =
     (case pkg of None \<Rightarrow> [] | Some p \<Rightarrow> if p = [] then [] else p @ ''.'')
     @ str_join ''.'' class_names"

subsection \<open>\<open>_collect_calls_in_method\<close>\<close>

text \<open>What one iteration of the worklist loop appends for the node it popped.\<close>

definition call_records :: "string \<Rightarrow> node \<Rightarrow> MethodCall list" where
  "call_records source_bytes n =
     (if ntype n = ''method_invocation''
      then [\<lparr>mc_name = (case child_by_field_name n ''name'' of
                          Some name_node \<Rightarrow> node_text source_bytes name_node
                        | None \<Rightarrow> ''<unknown>''),
             mc_receiver = (case child_by_field_name n ''object'' of
                              Some obj_node \<Rightarrow> Some (node_text source_bytes obj_node)
                            | None \<Rightarrow> None),
             mc_line = fst (node_point n), mc_col = snd (node_point n)\<rparr>]
      else [])
     @
     (if ntype n = ''object_creation_expression''
      then [\<lparr>mc_name = ''<init:'' @ (case child_by_field_name n ''type'' of
                                       Some type_node \<Rightarrow> node_text source_bytes type_node
                                     | None \<Rightarrow> ''<anon>'') @ ''>'',
             mc_receiver = None,
             mc_line = fst (node_point n), mc_col = snd (node_point n)\<rparr>]
      else [])"

fun nsize :: "node \<Rightarrow> nat" where
  "nsize (Node f t sb eb p ks) = Suc (sum_list (map nsize ks))"

text \<open>
  The \<open>while stack:\<close> loop. \<open>stack.pop()\<close> takes the last element and
  \<open>stack.extend(node.children)\<close> appends the children in order.
\<close>

function collect_loop :: "string \<Rightarrow> node list \<Rightarrow> MethodCall list \<Rightarrow> MethodCall list" where
  "collect_loop source_bytes stack calls =
     (if stack = [] then calls
      else let node = last stack;
               stack1 = butlast stack;
               calls1 = calls @ call_records source_bytes node
           in collect_loop source_bytes (stack1 @ children node) calls1)"
  by pat_completeness auto

termination collect_loop
proof (relation "measure (\<lambda>(source_bytes, stack, calls). sum_list (map nsize stack))", goal_cases)
  case 1
  show ?case by simp
next
  case (2 source_bytes stack calls node stack1 calls1)
  have kids: "sum_list (map nsize (children n)) < nsize n" for n
    by (cases n) simp
  have "sum_list (map nsize stack)
        = sum_list (map nsize (butlast stack)) + nsize (last stack)"
    using 2(1) by (induction stack) auto
  then show ?case
    using kids [of "last stack"] 2 by simp
qed

declare collect_loop.simps [simp del]

definition collect_calls_in_method :: "string \<Rightarrow> node \<Rightarrow> MethodInfo \<Rightarrow> MethodInfo" where
  "collect_calls_in_method source_bytes method_node method_info =
     method_info\<lparr>mi_calls := collect_loop source_bytes [method_node] (mi_calls method_info)\<rparr>"

subsection \<open>\<open>_index_method\<close>\<close>

text \<open>The loop over \<open>params_node.children\<close>, appending one token per \<open>parameter\<close> child.\<close>

fun collect_params :: "string \<Rightarrow> node list \<Rightarrow> string list \<Rightarrow> string list" where
  "collect_params source_bytes [] params = params"
| "collect_params source_bytes (p # ps) params =
     collect_params source_bytes ps
       (if ntype p = ''parameter''
        then params @
             [(case child_by_field_name p ''type'' of
                 Some p_type \<Rightarrow> node_text source_bytes p_type | None \<Rightarrow> ''?'')
              @ '' '' @
              (case child_by_field_name p ''name'' of
                 Some p_name \<Rightarrow> node_text source_bytes p_name | None \<Rightarrow> ''param'')]
        else params)"

text \<open>Lines 164 to 198: the \<open>MethodInfo\<close> built for a declaration node.\<close>

definition build_method_info :: "string \<Rightarrow> node \<Rightarrow> MethodInfo" where
  "build_method_info source_bytes n =
     (let method_name = (case child_by_field_name n ''name'' of
                           Some name_node \<Rightarrow> node_text source_bytes name_node
                         | None \<Rightarrow> ''<anonymous>'');
          return_type = (if ntype n = ''method_declaration''
                         then (case child_by_field_name n ''type'' of
                                 Some ret_node \<Rightarrow> Some (node_text source_bytes ret_node)
                               | None \<Rightarrow> None)
                         else None);
          params = (case child_by_field_name n ''parameters'' of
                      Some params_node \<Rightarrow> collect_params source_bytes (children params_node) []
                    | None \<Rightarrow> []);
          method_info = \<lparr>mi_name = method_name, mi_params = params,
                         mi_return_type = return_type,
                         mi_line = fst (node_point n), mi_col = snd (node_point n),
                         mi_calls = []\<rparr>
      in collect_calls_in_method source_bytes n method_info)"

text \<open>\<open>cls.methods.setdefault(method_name, []).append(method_info)\<close>.\<close>

definition append_method :: "ClassInfo \<Rightarrow> MethodInfo \<Rightarrow> ClassInfo" where
  "append_method cls method_info =
     cls\<lparr>ci_methods :=
           dict_set (ci_methods cls) (mi_name method_info)
             ((case dict_get (ci_methods cls) (mi_name method_info) of
                 None \<Rightarrow> [] | Some overloads \<Rightarrow> overloads) @ [method_info])\<rparr>"

definition index_method ::
  "string \<Rightarrow> node \<Rightarrow> string option \<Rightarrow> JavaIndexer \<times> frame list \<Rightarrow> py_error + JavaIndexer" where
  "index_method source_bytes n pkg s =
     (case s of (ix, class_stack) \<Rightarrow>
        if class_stack = [] then Inr ix
        else let fq = fqcn pkg (map fst class_stack);
                 method_info = build_method_info source_bytes n
             in (case dict_get (classes ix) fq of
                   None \<Rightarrow> Inl (KeyError fq)
                 | Some cls \<Rightarrow>
                     Inr (ix\<lparr>classes := dict_set (classes ix) fq (append_method cls method_info)\<rparr>)))"

subsection \<open>\<open>_walk_and_index\<close> and \<open>index_source\<close>\<close>

text \<open>The guard of lines 109 to 111: a \<open>class_declaration\<close> that has a name field.\<close>

definition class_name_node :: "node \<Rightarrow> node option" where
  "class_name_node n =
     (if ntype n = ''class_declaration'' then child_by_field_name n ''name'' else None)"

definition method_like :: "node \<Rightarrow> bool" where
  "method_like n = (ntype n = ''method_declaration'' \<or> ntype n = ''constructor_declaration'')"

definition class_frame :: "string \<Rightarrow> node \<Rightarrow> node \<Rightarrow> frame" where
  "class_frame source_bytes n name_node =
     (node_text source_bytes name_node, fst (node_point n), snd (node_point n))"

text \<open>Lines 116 to 127: register the class unless its FQCN is already a key.\<close>

definition register_class :: "string \<Rightarrow> frame \<Rightarrow> JavaIndexer \<Rightarrow> JavaIndexer" where
  "register_class fq fr ix =
     (case fr of (simple, line, col) \<Rightarrow>
        if \<not> dict_contains (classes ix) fq
        then ix\<lparr>classes := dict_set (classes ix) fq
                  \<lparr>ci_simple_name = simple, ci_fqcn = fq, ci_line = line, ci_col = col,
                   ci_methods = []\<rparr>\<rparr>
        else ix)"

text \<open>
  The class stack is one Python list mutated in place by \<open>append\<close> and \<open>pop\<close>; here it
  is threaded through the walk together with the index. \<open>pop\<close> on an empty list raises.
  The loop over \<open>node.children\<close> is \<open>walk_children\<close>. The recursion depth limit of the
  interpreter is not modelled.
\<close>

fun walk_and_index ::
    "string \<Rightarrow> node \<Rightarrow> string option \<Rightarrow> JavaIndexer \<times> frame list
       \<Rightarrow> py_error + JavaIndexer \<times> frame list"
  and walk_children ::
    "string \<Rightarrow> node list \<Rightarrow> string option \<Rightarrow> JavaIndexer \<times> frame list
       \<Rightarrow> py_error + JavaIndexer \<times> frame list"
where
  "walk_and_index source_bytes (Node f t sb eb p ks) pkg (ix, class_stack) =
     (case class_name_node (Node f t sb eb p ks) of
        Some name_node \<Rightarrow>
          (let fr = class_frame source_bytes (Node f t sb eb p ks) name_node;
               class_stack1 = class_stack @ [fr];
               fq = fqcn pkg (map fst class_stack1);
               ix1 = register_class fq fr ix
           in case walk_children source_bytes ks pkg (ix1, class_stack1) of
                Inl e \<Rightarrow> Inl e
              | Inr (ix2, class_stack2) \<Rightarrow>
                  if class_stack2 = [] then Inl IndexError
                  else Inr (ix2, butlast class_stack2))
      | None \<Rightarrow>
          (case (if method_like (Node f t sb eb p ks)
                 then index_method source_bytes (Node f t sb eb p ks) pkg (ix, class_stack)
                 else Inr ix) of
             Inl e \<Rightarrow> Inl e
           | Inr ix1 \<Rightarrow> walk_children source_bytes ks pkg (ix1, class_stack)))"
| "walk_children source_bytes [] pkg s = Inr s"
| "walk_children source_bytes (child # rest) pkg s =
     (case walk_and_index source_bytes child pkg s of
        Inl e \<Rightarrow> Inl e
      | Inr s1 \<Rightarrow> walk_children source_bytes rest pkg s1)"

text \<open>
  \<open>index_source\<close>, given the source bytes and the root node the parser returned for
  them. The parser itself is the external parse tree provider.
\<close>

definition index_source :: "string \<Rightarrow> node \<Rightarrow> JavaIndexer \<Rightarrow> py_error + JavaIndexer" where
  "index_source source_bytes root ix =
     (let current_package = find_package source_bytes root;
          ix1 = (case current_package of
                   None \<Rightarrow> ix
                 | Some p \<Rightarrow> if p = [] then ix else ix\<lparr>packages := insert p (packages ix)\<rparr>)
      in case walk_and_index source_bytes root current_package (ix1, []) of
           Inl e \<Rightarrow> Inl e
         | Inr (ix2, class_stack) \<Rightarrow> Inr ix2)"

section \<open>Directory scanning (\<open>inputs/directory_scanning.py\<close>)\<close>

text \<open>
  The names bound at module level in \<open>directory_scanning.py\<close>: its two imports
  (\<open>import os\<close>, \<open>from ... import JavaIndexer\<close>) and its two functions.
\<close>

definition directory_scanning_globals :: "string list" where
  "directory_scanning_globals = [''os'', ''JavaIndexer'', ''read_text'', ''index_directory'']"

definition os_path_join :: "string \<Rightarrow> string \<Rightarrow> string" where
  "os_path_join a b = (if a = [] \<or> last a = CHR ''/'' then a @ b else a @ ''/'' @ b)"

text \<open>\<open>str(e)\<close> of the exceptions of the model.\<close>

fun error_text :: "py_error \<Rightarrow> string" where
  "error_text (KeyError k) = [CHR 0x27] @ k @ [CHR 0x27]"
| "error_text IndexError = ''pop from empty list''"
| "error_text (NameError n) = ''name '' @ [CHR 0x27] @ n @ [CHR 0x27] @ '' is not defined''"
| "error_text (OSError msg) = msg"

text \<open>
  The handler \<open>print(f"[WARN] Failed to index {full}: {e}", file=sys.stderr)\<close>. The
  arguments are evaluated before the call; \<open>sys.stderr\<close> looks \<open>sys\<close> up among the
  module's globals and raises \<open>NameError\<close> when it is not bound there.
\<close>

definition warn_failed :: "string \<Rightarrow> py_error \<Rightarrow> string list \<Rightarrow> py_error + string list" where
  "warn_failed full e stderr =
     (if ''sys'' \<in> set directory_scanning_globals
      then Inr (stderr @ [''[WARN] Failed to index '' @ full @ '': '' @ error_text e])
      else Inl (NameError ''sys''))"

text \<open>
  \<open>index_directory\<close> over the files \<open>os.walk\<close> yields, in its order: directory, file
  name, and what reading and parsing the file gives (the exception raised, or the source
  bytes with the root node). The second component of the state is what was written to
  standard error. Files are indexed into the one index of the run, one after the other.
\<close>

fun index_directory ::
  "JavaIndexer \<times> string list \<Rightarrow> (string \<times> string \<times> (py_error + string \<times> node)) list
     \<Rightarrow> py_error + JavaIndexer \<times> string list" where
  "index_directory s [] = Inr s"
| "index_directory (ix, stderr) ((dirpath, fn, unit) # rest) =
     (if suffix ''.java'' fn
      then (case (case unit of
                    Inl e \<Rightarrow> Inl e
                  | Inr (source_bytes, root) \<Rightarrow> index_source source_bytes root ix) of
              Inr ix1 \<Rightarrow> index_directory (ix1, stderr) rest
            | Inl e \<Rightarrow>
                (case warn_failed (os_path_join dirpath fn) e stderr of
                   Inl e' \<Rightarrow> Inl e'
                 | Inr stderr1 \<Rightarrow> index_directory (ix, stderr1) rest))
      else index_directory (ix, stderr) rest)"

section \<open>Notions of the specification\<close>

subsection \<open>Orders on the nodes of a subtree\<close>

text \<open>Source occurrence order: pre-order, a node before its children, children left to right.\<close>

fun subtree_nodes :: "node \<Rightarrow> node list" where
  "subtree_nodes (Node f t sb eb p ks) = Node f t sb eb p ks # concat (map subtree_nodes ks)"

text \<open>The mirror image: a node before its children, children right to left.\<close>

fun mirrored_preorder :: "node \<Rightarrow> node list" where
  "mirrored_preorder (Node f t sb eb p ks) =
     Node f t sb eb p ks # concat (map mirrored_preorder (rev ks))"

subsection \<open>Lexical class scope\<close>

text \<open>
  The chain of class declarations that lexically enclose the children of \<open>n\<close>, given the
  chain that encloses \<open>n\<close>: a class declaration adds its own frame, outermost first.
\<close>

definition enter_scope :: "string \<Rightarrow> frame list \<Rightarrow> node \<Rightarrow> frame list" where
  "enter_scope source_bytes chain n =
     (case class_name_node n of
        Some name_node \<Rightarrow> chain @ [class_frame source_bytes n name_node]
      | None \<Rightarrow> chain)"

text \<open>Every node of the tree in pre-order, paired with the chain that encloses it.\<close>

fun lexical_visits :: "string \<Rightarrow> frame list \<Rightarrow> node \<Rightarrow> (node \<times> frame list) list" where
  "lexical_visits source_bytes chain (Node f t sb eb p ks) =
     (Node f t sb eb p ks, chain)
     # concat (map (lexical_visits source_bytes
                      (enter_scope source_bytes chain (Node f t sb eb p ks))) ks)"

text \<open>
  What the walk does at one node when the class stack is the given chain: a class
  declaration is registered under the chain extended by its frame, a method or
  constructor declaration is indexed under the chain, any other node does nothing.
\<close>

definition visit_action ::
  "string \<Rightarrow> string option \<Rightarrow> node \<times> frame list \<Rightarrow> JavaIndexer \<Rightarrow> py_error + JavaIndexer" where
  "visit_action source_bytes pkg v ix =
     (case v of (n, chain) \<Rightarrow>
        (case class_name_node n of
           Some name_node \<Rightarrow>
             Inr (register_class
                    (fqcn pkg (map fst (chain @ [class_frame source_bytes n name_node])))
                    (class_frame source_bytes n name_node) ix)
         | None \<Rightarrow>
             if method_like n then index_method source_bytes n pkg (ix, chain) else Inr ix))"

fun run_visits ::
  "string \<Rightarrow> string option \<Rightarrow> (node \<times> frame list) list \<Rightarrow> JavaIndexer
     \<Rightarrow> py_error + JavaIndexer" where
  "run_visits source_bytes pkg [] ix = Inr ix"
| "run_visits source_bytes pkg (v # vs) ix =
     (case visit_action source_bytes pkg v ix of
        Inl e \<Rightarrow> Inl e
      | Inr ix1 \<Rightarrow> run_visits source_bytes pkg vs ix1)"

text \<open>The FQCN a visit registers, if the visited node is a class declaration.\<close>

definition registered_by :: "string \<Rightarrow> string option \<Rightarrow> node \<times> frame list \<Rightarrow> string set" where
  "registered_by source_bytes pkg v =
     (case class_name_node (fst v) of
        Some name_node \<Rightarrow> {fqcn pkg (map fst (snd v) @ [node_text source_bytes name_node])}
      | None \<Rightarrow> {})"

subsection \<open>Properties of the registry\<close>

text \<open>The overloads a class holds under a method name, none when the name is no key.\<close>

definition methods_named :: "ClassInfo \<Rightarrow> string \<Rightarrow> MethodInfo list" where
  "methods_named ci m =
     (case dict_get (ci_methods ci) m of None \<Rightarrow> [] | Some overloads \<Rightarrow> overloads)"

text \<open>The class stack is empty or the FQCN it spells is a key of the class map.\<close>

definition stack_registered :: "string option \<Rightarrow> JavaIndexer \<Rightarrow> frame list \<Rightarrow> bool" where
  "stack_registered pkg ix class_stack =
     (class_stack = [] \<or> dict_contains (classes ix) (fqcn pkg (map fst class_stack)))"

text \<open>No key occurs twice, and every class is stored under its own \<open>fqcn\<close>.\<close>

definition registry_wf :: "JavaIndexer \<Rightarrow> bool" where
  "registry_wf ix =
     (distinct (map fst (classes ix)) \<and> list_all (\<lambda>(k, ci). ci_fqcn ci = k) (classes ix))"

definition same_entity :: "ClassInfo \<Rightarrow> ClassInfo \<Rightarrow> bool" where
  "same_entity ci ci' =
     (ci_simple_name ci' = ci_simple_name ci \<and> ci_fqcn ci' = ci_fqcn ci \<and>
      ci_line ci' = ci_line ci \<and> ci_col ci' = ci_col ci)"

text \<open>
  Monotone growth: every class stays, as the same entity, and each of its method lists
  is only extended at the end.
\<close>

definition grows_to :: "JavaIndexer \<Rightarrow> JavaIndexer \<Rightarrow> bool" where
  "grows_to ix ix' =
     (\<forall>k ci. dict_get (classes ix) k = Some ci \<longrightarrow>
        (\<exists>ci'. dict_get (classes ix') k = Some ci' \<and> same_entity ci ci' \<and>
               (\<forall>m. prefix (methods_named ci m) (methods_named ci' m))))"

text \<open>
  The \<open>MethodInfo\<close>s, in visit order, of the method and constructor declarations
  among the visits whose enclosing chain is \<open>scope\<close> and whose name is \<open>m\<close>; and those
  whose chain is non-empty and spells the FQCN \<open>k\<close>.
\<close>

definition methods_in_scope ::
  "string \<Rightarrow> (node \<times> frame list) list \<Rightarrow> frame list \<Rightarrow> string \<Rightarrow> MethodInfo list" where
  "methods_in_scope source_bytes vs scope m =
     filter (\<lambda>mi. mi_name mi = m)
       (map (\<lambda>v. build_method_info source_bytes (fst v))
          (filter (\<lambda>v. method_like (fst v) \<and> snd v = scope) vs))"

definition methods_for_key ::
  "string \<Rightarrow> string option \<Rightarrow> (node \<times> frame list) list \<Rightarrow> string \<Rightarrow> string
     \<Rightarrow> MethodInfo list" where
  "methods_for_key source_bytes pkg vs k m =
     filter (\<lambda>mi. mi_name mi = m)
       (map (\<lambda>v. build_method_info source_bytes (fst v))
          (filter (\<lambda>v. method_like (fst v) \<and> snd v \<noteq> []
                        \<and> fqcn pkg (map fst (snd v)) = k) vs))"

text \<open>The token \<open>"<type> <name>"\<close> of a parameter, with the two placeholders.\<close>

definition param_token :: "string \<Rightarrow> node \<Rightarrow> string" where
  "param_token source_bytes p =
     (case child_by_field_name p ''type'' of
        Some p_type \<Rightarrow> node_text source_bytes p_type | None \<Rightarrow> ''?'')
     @ '' '' @
     (case child_by_field_name p ''name'' of
        Some p_name \<Rightarrow> node_text source_bytes p_name | None \<Rightarrow> ''param'')"

section \<open>Example compilation units\<close>

text \<open>
  Parse trees of one-line Java sources, in the shape the Java grammar of Tree-sitter
  gives them: anonymous tokens are children too; declarations carry the fields \<open>name\<close>,
  \<open>type\<close>, \<open>parameters\<close> and \<open>body\<close>, invocations \<open>name\<close>, \<open>object\<close> and
  \<open>arguments\<close>; the name of a package is a child of its \<open>package_declaration\<close> under
  no field; a parameter is a node of kind \<open>formal_parameter\<close> with the fields \<open>type\<close>
  and \<open>name\<close>.
\<close>

definition empty_indexer :: JavaIndexer where
  "empty_indexer = \<lparr>packages = {}, classes = []\<rparr>"

text \<open>The index after the first class of \<open>dup_src\<close> alone.\<close>

definition dup_first_class :: ClassInfo where
  "dup_first_class =
     \<lparr>ci_simple_name = ''A'', ci_fqcn = ''A'', ci_line = 0, ci_col = 0,
      ci_methods = [(''m'', [\<lparr>mi_name = ''m'', mi_params = [], mi_return_type = Some ''void'',
                               mi_line = 0, mi_col = 8, mi_calls = []\<rparr>])]\<rparr>"

definition dup_first_index :: JavaIndexer where
  "dup_first_index = \<lparr>packages = {}, classes = [(''A'', dup_first_class)]\<rparr>"

text \<open>The index after both classes of \<open>dup_src\<close>.\<close>

definition dup_both_index :: JavaIndexer where
  "dup_both_index =
     \<lparr>packages = {},
      classes =
        [(''A'',
          \<lparr>ci_simple_name = ''A'', ci_fqcn = ''A'', ci_line = 0, ci_col = 0,
           ci_methods =
             [(''m'', [\<lparr>mi_name = ''m'', mi_params = [], mi_return_type = Some ''void'',
                        mi_line = 0, mi_col = 8, mi_calls = []\<rparr>]),
              (''n'', [\<lparr>mi_name = ''n'', mi_params = [], mi_return_type = Some ''void'',
                        mi_line = 0, mi_col = 27, mi_calls = []\<rparr>])]\<rparr>)]\<rparr>"

definition dup_src :: string where
  "dup_src = ''class A{void m(){}}class A{void n(){}}''"

definition dup_second_name :: node where
  "dup_second_name =
     Node (Some ''name'') ''identifier'' 25 26 (0, 25) []"

definition dup_second :: node where
  "dup_second =
     Node None ''class_declaration'' 19 38 (0, 19)
       [Node None ''class'' 19 24 (0, 19) [],
        dup_second_name,
        Node (Some ''body'') ''class_body'' 26 38 (0, 26)
          [Node None ''{'' 26 27 (0, 26) [],
           Node None ''method_declaration'' 27 37 (0, 27)
             [Node (Some ''type'') ''void_type'' 27 31 (0, 27) [],
              Node (Some ''name'') ''identifier'' 32 33 (0, 32) [],
              Node (Some ''parameters'') ''formal_parameters'' 33 35 (0, 33)
                [Node None ''('' 33 34 (0, 33) [],
                 Node None '')'' 34 35 (0, 34) []],
              Node (Some ''body'') ''block'' 35 37 (0, 35)
                [Node None ''{'' 35 36 (0, 35) [],
                 Node None ''}'' 36 37 (0, 36) []]],
           Node None ''}'' 37 38 (0, 37) []]]"

definition dup_root :: node where
  "dup_root =
     Node None ''program'' 0 38 (0, 0)
       [Node None ''class_declaration'' 0 19 (0, 0)
          [Node None ''class'' 0 5 (0, 0) [],
           Node (Some ''name'') ''identifier'' 6 7 (0, 6) [],
           Node (Some ''body'') ''class_body'' 7 19 (0, 7)
             [Node None ''{'' 7 8 (0, 7) [],
              Node None ''method_declaration'' 8 18 (0, 8)
                [Node (Some ''type'') ''void_type'' 8 12 (0, 8) [],
                 Node (Some ''name'') ''identifier'' 13 14 (0, 13) [],
                 Node (Some ''parameters'') ''formal_parameters'' 14 16 (0, 14)
                   [Node None ''('' 14 15 (0, 14) [],
                    Node None '')'' 15 16 (0, 15) []],
                 Node (Some ''body'') ''block'' 16 18 (0, 16)
                   [Node None ''{'' 16 17 (0, 16) [],
                    Node None ''}'' 17 18 (0, 17) []]],
              Node None ''}'' 18 19 (0, 18) []]],
        dup_second]"

definition order_src :: string where
  "order_src = ''class A{void m(){a();b();}}''"

definition order_method :: node where
  "order_method =
     Node None ''method_declaration'' 8 26 (0, 8)
       [Node (Some ''type'') ''void_type'' 8 12 (0, 8) [],
        Node (Some ''name'') ''identifier'' 13 14 (0, 13) [],
        Node (Some ''parameters'') ''formal_parameters'' 14 16 (0, 14)
          [Node None ''('' 14 15 (0, 14) [],
           Node None '')'' 15 16 (0, 15) []],
        Node (Some ''body'') ''block'' 16 26 (0, 16)
          [Node None ''{'' 16 17 (0, 16) [],
           Node None ''expression_statement'' 17 21 (0, 17)
             [Node None ''method_invocation'' 17 20 (0, 17)
                [Node (Some ''name'') ''identifier'' 17 18 (0, 17) [],
                 Node (Some ''arguments'') ''argument_list'' 18 20 (0, 18)
                   [Node None ''('' 18 19 (0, 18) [],
                    Node None '')'' 19 20 (0, 19) []]],
              Node None '';'' 20 21 (0, 20) []],
           Node None ''expression_statement'' 21 25 (0, 21)
             [Node None ''method_invocation'' 21 24 (0, 21)
                [Node (Some ''name'') ''identifier'' 21 22 (0, 21) [],
                 Node (Some ''arguments'') ''argument_list'' 22 24 (0, 22)
                   [Node None ''('' 22 23 (0, 22) [],
                    Node None '')'' 23 24 (0, 23) []]],
              Node None '';'' 24 25 (0, 24) []],
           Node None ''}'' 25 26 (0, 25) []]]"

definition order_root :: node where
  "order_root =
     Node None ''program'' 0 27 (0, 0)
       [Node None ''class_declaration'' 0 27 (0, 0)
          [Node None ''class'' 0 5 (0, 0) [],
           Node (Some ''name'') ''identifier'' 6 7 (0, 6) [],
           Node (Some ''body'') ''class_body'' 7 27 (0, 7)
             [Node None ''{'' 7 8 (0, 7) [],
              order_method,
              Node None ''}'' 26 27 (0, 26) []]]]"

definition nested_src :: string where
  "nested_src = ''class A{void m(){class L{void g(){f();}}}}''"

definition nested_inner :: node where
  "nested_inner =
     Node None ''method_declaration'' 25 39 (0, 25)
       [Node (Some ''type'') ''void_type'' 25 29 (0, 25) [],
        Node (Some ''name'') ''identifier'' 30 31 (0, 30) [],
        Node (Some ''parameters'') ''formal_parameters'' 31 33 (0, 31)
          [Node None ''('' 31 32 (0, 31) [],
           Node None '')'' 32 33 (0, 32) []],
        Node (Some ''body'') ''block'' 33 39 (0, 33)
          [Node None ''{'' 33 34 (0, 33) [],
           Node None ''expression_statement'' 34 38 (0, 34)
             [Node None ''method_invocation'' 34 37 (0, 34)
                [Node (Some ''name'') ''identifier'' 34 35 (0, 34) [],
                 Node (Some ''arguments'') ''argument_list'' 35 37 (0, 35)
                   [Node None ''('' 35 36 (0, 35) [],
                    Node None '')'' 36 37 (0, 36) []]],
              Node None '';'' 37 38 (0, 37) []],
           Node None ''}'' 38 39 (0, 38) []]]"

definition nested_outer :: node where
  "nested_outer =
     Node None ''method_declaration'' 8 41 (0, 8)
       [Node (Some ''type'') ''void_type'' 8 12 (0, 8) [],
        Node (Some ''name'') ''identifier'' 13 14 (0, 13) [],
        Node (Some ''parameters'') ''formal_parameters'' 14 16 (0, 14)
          [Node None ''('' 14 15 (0, 14) [],
           Node None '')'' 15 16 (0, 15) []],
        Node (Some ''body'') ''block'' 16 41 (0, 16)
          [Node None ''{'' 16 17 (0, 16) [],
           Node None ''class_declaration'' 17 40 (0, 17)
             [Node None ''class'' 17 22 (0, 17) [],
              Node (Some ''name'') ''identifier'' 23 24 (0, 23) [],
              Node (Some ''body'') ''class_body'' 24 40 (0, 24)
                [Node None ''{'' 24 25 (0, 24) [],
                 nested_inner,
                 Node None ''}'' 39 40 (0, 39) []]],
           Node None ''}'' 40 41 (0, 40) []]]"

definition nested_root :: node where
  "nested_root =
     Node None ''program'' 0 42 (0, 0)
       [Node None ''class_declaration'' 0 42 (0, 0)
          [Node None ''class'' 0 5 (0, 0) [],
           Node (Some ''name'') ''identifier'' 6 7 (0, 6) [],
           Node (Some ''body'') ''class_body'' 7 42 (0, 7)
             [Node None ''{'' 7 8 (0, 7) [],
              nested_outer,
              Node None ''}'' 41 42 (0, 41) []]]]"

definition new_src :: string where
  "new_src = ''class A{void m(){new Foo(bar);}}''"

definition new_expression :: node where
  "new_expression =
     Node None ''object_creation_expression'' 17 29 (0, 17)
       [Node None ''new'' 17 20 (0, 17) [],
        Node (Some ''type'') ''type_identifier'' 21 24 (0, 21) [],
        Node (Some ''arguments'') ''argument_list'' 24 29 (0, 24)
          [Node None ''('' 24 25 (0, 24) [],
           Node None ''identifier'' 25 28 (0, 25) [],
           Node None '')'' 28 29 (0, 28) []]]"

definition new_method :: node where
  "new_method =
     Node None ''method_declaration'' 8 31 (0, 8)
       [Node (Some ''type'') ''void_type'' 8 12 (0, 8) [],
        Node (Some ''name'') ''identifier'' 13 14 (0, 13) [],
        Node (Some ''parameters'') ''formal_parameters'' 14 16 (0, 14)
          [Node None ''('' 14 15 (0, 14) [],
           Node None '')'' 15 16 (0, 15) []],
        Node (Some ''body'') ''block'' 16 31 (0, 16)
          [Node None ''{'' 16 17 (0, 16) [],
           Node None ''expression_statement'' 17 30 (0, 17)
             [new_expression,
              Node None '';'' 29 30 (0, 29) []],
           Node None ''}'' 30 31 (0, 30) []]]"

text \<open>
  A unit with a package declaration, a method with a parameter, a method of an
  interface that declares a local class, and the same interface without the method.
\<close>

definition pkg_src :: string where
  "pkg_src = ''package com.acme;class A{}''"

definition pkg_root :: node where
  "pkg_root =
     Node None ''program'' 0 26 (0, 0)
       [Node None ''package_declaration'' 0 17 (0, 0)
          [Node None ''package'' 0 7 (0, 0) [],
           Node None ''scoped_identifier'' 8 16 (0, 8)
             [Node (Some ''scope'') ''identifier'' 8 11 (0, 8) [],
              Node None ''.'' 11 12 (0, 11) [],
              Node (Some ''name'') ''identifier'' 12 16 (0, 12) []],
           Node None '';'' 16 17 (0, 16) []],
        Node None ''class_declaration'' 17 26 (0, 17)
          [Node None ''class'' 17 22 (0, 17) [],
           Node (Some ''name'') ''identifier'' 23 24 (0, 23) [],
           Node (Some ''body'') ''class_body'' 24 26 (0, 24)
             [Node None ''{'' 24 25 (0, 24) [],
              Node None ''}'' 25 26 (0, 25) []]]]"

definition param_src :: string where
  "param_src = ''class A{void m(int a){}}''"

definition param_root :: node where
  "param_root =
     Node None ''program'' 0 24 (0, 0)
       [Node None ''class_declaration'' 0 24 (0, 0)
          [Node None ''class'' 0 5 (0, 0) [],
           Node (Some ''name'') ''identifier'' 6 7 (0, 6) [],
           Node (Some ''body'') ''class_body'' 7 24 (0, 7)
             [Node None ''{'' 7 8 (0, 7) [],
              Node None ''method_declaration'' 8 23 (0, 8)
                [Node (Some ''type'') ''void_type'' 8 12 (0, 8) [],
                 Node (Some ''name'') ''identifier'' 13 14 (0, 13) [],
                 Node (Some ''parameters'') ''formal_parameters'' 14 21 (0, 14)
                   [Node None ''('' 14 15 (0, 14) [],
                    Node None ''formal_parameter'' 15 20 (0, 15)
                      [Node (Some ''type'') ''integral_type'' 15 18 (0, 15)
                         [Node None ''int'' 15 18 (0, 15) []],
                       Node (Some ''name'') ''identifier'' 19 20 (0, 19) []],
                    Node None '')'' 20 21 (0, 20) []],
                 Node (Some ''body'') ''block'' 21 23 (0, 21)
                   [Node None ''{'' 21 22 (0, 21) [],
                    Node None ''}'' 22 23 (0, 22) []]],
              Node None ''}'' 23 24 (0, 23) []]]]"

definition local_src :: string where
  "local_src = ''interface I{default void m(){class L{}}}''"

definition local_method :: node where
  "local_method =
     Node None ''method_declaration'' 12 39 (0, 12)
       [Node None ''modifiers'' 12 19 (0, 12)
          [Node None ''default'' 12 19 (0, 12) []],
        Node (Some ''type'') ''void_type'' 20 24 (0, 20) [],
        Node (Some ''name'') ''identifier'' 25 26 (0, 25) [],
        Node (Some ''parameters'') ''formal_parameters'' 26 28 (0, 26)
          [Node None ''('' 26 27 (0, 26) [],
           Node None '')'' 27 28 (0, 27) []],
        Node (Some ''body'') ''block'' 28 39 (0, 28)
          [Node None ''{'' 28 29 (0, 28) [],
           Node None ''class_declaration'' 29 38 (0, 29)
             [Node None ''class'' 29 34 (0, 29) [],
              Node (Some ''name'') ''identifier'' 35 36 (0, 35) [],
              Node (Some ''body'') ''class_body'' 36 38 (0, 36)
                [Node None ''{'' 36 37 (0, 36) [],
                 Node None ''}'' 37 38 (0, 37) []]],
           Node None ''}'' 38 39 (0, 38) []]]"

definition local_root :: node where
  "local_root =
     Node None ''program'' 0 40 (0, 0)
       [Node None ''interface_declaration'' 0 40 (0, 0)
          [Node None ''interface'' 0 9 (0, 0) [],
           Node (Some ''name'') ''identifier'' 10 11 (0, 10) [],
           Node (Some ''body'') ''interface_body'' 11 40 (0, 11)
             [Node None ''{'' 11 12 (0, 11) [],
              local_method,
              Node None ''}'' 39 40 (0, 39) []]]]"

definition bare_src :: string where
  "bare_src = ''interface I{}''"

definition bare_root :: node where
  "bare_root =
     Node None ''program'' 0 13 (0, 0)
       [Node None ''interface_declaration'' 0 13 (0, 0)
          [Node None ''interface'' 0 9 (0, 0) [],
           Node (Some ''name'') ''identifier'' 10 11 (0, 10) [],
           Node (Some ''body'') ''interface_body'' 11 13 (0, 11)
             [Node None ''{'' 11 12 (0, 11) [],
              Node None ''}'' 12 13 (0, 12) []]]]"

section \<open>Lemmas\<close>

lemma mirrored_preorder_unfold:
  "mirrored_preorder n = n # concat (map mirrored_preorder (rev (children n)))"
  by (cases n) simp

lemma collect_loop_eq:
  "collect_loop source_bytes stack calls =
     calls @ concat (map (call_records source_bytes) (concat (map mirrored_preorder (rev stack))))"
proof (induction source_bytes stack calls rule: collect_loop.induct)
  case (1 source_bytes stack calls)
  show ?case
  proof (cases "stack = []")
    case True
    then show ?thesis by (simp add: collect_loop.simps)
  next
    case False
    have rev_stack: "rev stack = last stack # rev (butlast stack)"
      using False by (metis append_butlast_last_id rev.simps(2) rev_swap)
    have visit: "concat (map mirrored_preorder (rev stack))
        = last stack # concat (map mirrored_preorder (rev (children (last stack))))
            @ concat (map mirrored_preorder (rev (butlast stack)))"
      unfolding rev_stack
      by (simp add: mirrored_preorder_unfold [of "last stack"])
    have "collect_loop source_bytes stack calls
        = collect_loop source_bytes (butlast stack @ children (last stack))
            (calls @ call_records source_bytes (last stack))"
      using False by (subst collect_loop.simps) (simp add: Let_def)
    also have "\<dots> = (calls @ call_records source_bytes (last stack))
        @ concat (map (call_records source_bytes)
            (concat (map mirrored_preorder (rev (butlast stack @ children (last stack))))))"
      using "1.IH" [OF False refl refl refl] .
    finally show ?thesis
      by (simp add: visit)
  qed
qed

lemma mset_mirrored_preorder: "mset (mirrored_preorder n) = mset (subtree_nodes n)"
proof (induction n)
  case (Node f t sb eb p ks)
  have "mset (concat (map mirrored_preorder (rev ks))) = mset (concat (map subtree_nodes ks))"
    using Node.IH
  proof (induction ks)
    case Nil
    then show ?case by simp
  next
    case (Cons k ks)
    then show ?case by (simp add: ac_simps)
  qed
  then show ?case by simp
qed

lemma run_visits_append:
  "run_visits source_bytes pkg (xs @ ys) ix =
     (case run_visits source_bytes pkg xs ix of
        Inl e \<Rightarrow> Inl e
      | Inr ix1 \<Rightarrow> run_visits source_bytes pkg ys ix1)"
  by (induction xs arbitrary: ix) (auto split: sum.splits)

lemma walk_lexical_aux:
  "walk_and_index source_bytes n pkg s =
     (case run_visits source_bytes pkg (lexical_visits source_bytes (snd s) n) (fst s) of
        Inl e \<Rightarrow> Inl e
      | Inr ix' \<Rightarrow> Inr (ix', snd s))"
  and walk_children_lexical:
  "walk_children source_bytes ks pkg s =
     (case run_visits source_bytes pkg
             (concat (map (lexical_visits source_bytes (snd s)) ks)) (fst s) of
        Inl e \<Rightarrow> Inl e
      | Inr ix' \<Rightarrow> Inr (ix', snd s))"
proof (induction source_bytes n pkg s and source_bytes ks pkg s
       rule: walk_and_index_walk_children.induct)
  case (1 source_bytes f t sb eb p ks pkg ix class_stack)
  let ?n = "Node f t sb eb p ks"
  show ?case
  proof (cases "class_name_node ?n")
    case None
    show ?thesis
    proof (cases "if method_like ?n then index_method source_bytes ?n pkg (ix, class_stack) else Inr ix")
      case (Inl e)
      then show ?thesis
        using None by (simp add: visit_action_def enter_scope_def split: sum.splits)
    next
      case (Inr ix1)
      then show ?thesis
        using None "1.IH"(1) [OF None Inr]
        by (simp add: visit_action_def enter_scope_def split: sum.splits)
    qed
  next
    case (Some name_node)
    then show ?thesis
      using "1.IH"(2) [OF Some refl refl]
      by (simp add: visit_action_def enter_scope_def Let_def split: sum.splits)
  qed
next
  case (2 source_bytes pkg s)
  then show ?case by simp
next
  case (3 source_bytes child rest pkg s)
  show ?case
  proof (cases "walk_and_index source_bytes child pkg s")
    case (Inl e)
    then show ?thesis
      using "3.IH"(1) by (simp add: run_visits_append split: sum.splits)
  next
    case (Inr s1)
    then show ?thesis
      using "3.IH"(1) "3.IH"(2) [OF Inr]
      by (auto simp add: run_visits_append split: sum.splits)
  qed
qed

lemma dict_contains_keys: "dict_contains d k \<longleftrightarrow> k \<in> dict_keys d"
  by (simp add: dict_contains_def dict_keys_def map_of_eq_None_iff)

lemma dict_contains_get: "dict_contains d k \<longleftrightarrow> (\<exists>v. dict_get d k = Some v)"
  by (simp add: dict_contains_def dict_get_def)

lemma dict_keys_set: "dict_keys (dict_set d k v) = insert k (dict_keys d)"
  by (simp add: dict_keys_def dict_set_def dom_update)

lemma dict_get_set: "dict_get (dict_set d k v) k' = (if k' = k then Some v else dict_get d k')"
  by (simp add: dict_get_def dict_set_def update_conv')

lemma distinct_dict_set: "distinct (map fst d) \<Longrightarrow> distinct (map fst (dict_set d k v))"
  by (simp add: dict_set_def distinct_update)

lemma set_dict_set: "set (dict_set d k v) \<subseteq> insert (k, v) (set d)"
  unfolding dict_set_def by (induction d) auto

lemma same_entity_refl: "same_entity ci ci"
  by (simp add: same_entity_def)

lemma same_entity_trans: "same_entity a b \<Longrightarrow> same_entity b c \<Longrightarrow> same_entity a c"
  by (simp add: same_entity_def)

lemma grows_to_refl: "grows_to ix ix"
  by (auto simp: grows_to_def same_entity_refl)

lemma grows_to_trans:
  assumes "grows_to a b" and "grows_to b c"
  shows "grows_to a c"
  unfolding grows_to_def
proof (intro allI impI)
  fix k ci
  assume "dict_get (classes a) k = Some ci"
  then obtain ci1 where b: "dict_get (classes b) k = Some ci1" "same_entity ci ci1"
      "\<forall>m. prefix (methods_named ci m) (methods_named ci1 m)"
    using assms(1) unfolding grows_to_def by blast
  then obtain ci2 where c: "dict_get (classes c) k = Some ci2" "same_entity ci1 ci2"
      "\<forall>m. prefix (methods_named ci1 m) (methods_named ci2 m)"
    using assms(2) unfolding grows_to_def by blast
  have "\<forall>m. prefix (methods_named ci m) (methods_named ci2 m)"
    using b(3) c(3) prefix_order.order_trans by blast
  then show "\<exists>ci'. dict_get (classes c) k = Some ci' \<and> same_entity ci ci' \<and>
               (\<forall>m. prefix (methods_named ci m) (methods_named ci' m))"
    using c(1) same_entity_trans [OF b(2) c(2)] by blast
qed

lemma grows_to_keys: "grows_to ix ix' \<Longrightarrow> dict_keys (classes ix) \<subseteq> dict_keys (classes ix')"
  unfolding grows_to_def
  by (metis dict_contains_get dict_contains_keys subsetI)

subsection \<open>register_class\<close>

lemma register_class_classes:
  "classes (register_class fq fr ix) =
     (if dict_contains (classes ix) fq then classes ix
      else dict_set (classes ix) fq
             \<lparr>ci_simple_name = fst fr, ci_fqcn = fq,
              ci_line = fst (snd fr), ci_col = snd (snd fr), ci_methods = []\<rparr>)"
  by (simp add: register_class_def split: prod.splits)

lemma register_class_known: "dict_contains (classes ix) fq \<Longrightarrow> register_class fq fr ix = ix"
  by (simp add: register_class_def split: prod.splits)

lemma register_class_keys:
  "dict_keys (classes (register_class fq fr ix)) = insert fq (dict_keys (classes ix))"
  by (auto simp: register_class_classes dict_keys_set dict_contains_keys)

lemma register_class_grows: "grows_to ix (register_class fq fr ix)"
  unfolding grows_to_def
  by (auto simp: register_class_classes dict_get_set dict_contains_get same_entity_refl)

lemma register_class_wf: "registry_wf ix \<Longrightarrow> registry_wf (register_class fq fr ix)"
  unfolding registry_wf_def register_class_classes
  using set_dict_set
  by (fastforce simp: distinct_dict_set list_all_iff)

subsection \<open>index_method\<close>

lemma index_method_empty: "index_method source_bytes n pkg (ix, []) = Inr ix"
  by (simp add: index_method_def)

lemma index_method_registered:
  assumes "class_stack \<noteq> []"
    and "dict_get (classes ix) (fqcn pkg (map fst class_stack)) = Some cls"
  shows "index_method source_bytes n pkg (ix, class_stack) =
           Inr (ix\<lparr>classes := dict_set (classes ix) (fqcn pkg (map fst class_stack))
                                 (append_method cls (build_method_info source_bytes n))\<rparr>)"
  using assms by (simp add: index_method_def Let_def)

lemma index_method_cases:
  assumes "index_method source_bytes n pkg (ix, class_stack) = Inr ix'"
  obtains "class_stack = []" "ix' = ix"
  | cls where "class_stack \<noteq> []"
      "dict_get (classes ix) (fqcn pkg (map fst class_stack)) = Some cls"
      "ix' = ix\<lparr>classes := dict_set (classes ix) (fqcn pkg (map fst class_stack))
                                 (append_method cls (build_method_info source_bytes n))\<rparr>"
  using assms by (auto simp: index_method_def Let_def split: if_splits option.splits)

lemma methods_named_append_method:
  "methods_named (append_method cls mi) m =
     (if m = mi_name mi then methods_named cls m @ [mi] else methods_named cls m)"
  by (simp add: methods_named_def append_method_def dict_get_set)

lemma same_entity_append_method: "same_entity cls (append_method cls mi)"
  by (simp add: same_entity_def append_method_def)

lemma index_method_grows:
  assumes "index_method source_bytes n pkg (ix, class_stack) = Inr ix'"
  shows "grows_to ix ix'"
  using assms
proof (cases rule: index_method_cases)
  case 1
  then show ?thesis by (simp add: grows_to_refl)
next
  case (2 cls)
  show ?thesis
    unfolding grows_to_def 2(3)
    using 2(2)
    by (auto simp: dict_get_set same_entity_refl same_entity_append_method
        methods_named_append_method)
qed

lemma index_method_keys:
  assumes "index_method source_bytes n pkg (ix, class_stack) = Inr ix'"
  shows "dict_keys (classes ix') = dict_keys (classes ix)"
  using assms
proof (cases rule: index_method_cases)
  case 1
  then show ?thesis by simp
next
  case (2 cls)
  have "fqcn pkg (map fst class_stack) \<in> dict_keys (classes ix)"
    using 2(2) dict_contains_get dict_contains_keys by fastforce
  then show ?thesis
    by (auto simp: 2(3) dict_keys_set)
qed

lemma index_method_wf:
  assumes "index_method source_bytes n pkg (ix, class_stack) = Inr ix'" and "registry_wf ix"
  shows "registry_wf ix'"
  using assms(1)
proof (cases rule: index_method_cases)
  case 1
  then show ?thesis using assms(2) by simp
next
  case (2 cls)
  have "(fqcn pkg (map fst class_stack), cls) \<in> set (classes ix)"
    using 2(2) by (simp add: dict_get_def map_of_SomeD)
  then have "ci_fqcn cls = fqcn pkg (map fst class_stack)"
    using assms(2) by (auto simp: registry_wf_def list_all_iff)
  then have "ci_fqcn (append_method cls (build_method_info source_bytes n))
             = fqcn pkg (map fst class_stack)"
    by (simp add: append_method_def)
  then show ?thesis
    using assms(2) set_dict_set
    unfolding registry_wf_def 2(3)
    by (fastforce simp: distinct_dict_set list_all_iff)
qed

lemma visit_action_cases:
  assumes "visit_action source_bytes pkg (n, chain) ix = Inr ix'"
  obtains name_node where "class_name_node n = Some name_node"
      "ix' = register_class
               (fqcn pkg (map fst (chain @ [class_frame source_bytes n name_node])))
               (class_frame source_bytes n name_node) ix"
  | "class_name_node n = None" "method_like n"
      "index_method source_bytes n pkg (ix, chain) = Inr ix'"
  | "class_name_node n = None" "\<not> method_like n" "ix' = ix"
  using assms by (auto simp: visit_action_def split: option.splits if_splits)

lemma visit_action_grows:
  assumes "visit_action source_bytes pkg v ix = Inr ix'"
  shows "grows_to ix ix'"
proof -
  obtain n chain where v: "v = (n, chain)" by (cases v)
  from assms [unfolded v] show ?thesis
    by (cases rule: visit_action_cases)
       (auto simp: register_class_grows index_method_grows grows_to_refl)
qed

lemma visit_action_wf:
  assumes "visit_action source_bytes pkg v ix = Inr ix'" and "registry_wf ix"
  shows "registry_wf ix'"
proof -
  obtain n chain where v: "v = (n, chain)" by (cases v)
  from assms(1) [unfolded v] show ?thesis
    using assms(2)
    by (cases rule: visit_action_cases) (auto simp: register_class_wf index_method_wf)
qed

lemma visit_action_keys:
  assumes "visit_action source_bytes pkg v ix = Inr ix'"
  shows "dict_keys (classes ix') = dict_keys (classes ix) \<union> registered_by source_bytes pkg v"
proof -
  obtain n chain where v: "v = (n, chain)" by (cases v)
  from assms [unfolded v] show ?thesis
    by (cases rule: visit_action_cases)
       (auto simp: v registered_by_def register_class_keys index_method_keys class_frame_def)
qed

lemma run_visits_grows:
  "run_visits source_bytes pkg vs ix = Inr ix' \<Longrightarrow> grows_to ix ix'"
proof (induction vs arbitrary: ix)
  case Nil
  then show ?case by (simp add: grows_to_refl)
next
  case (Cons v vs)
  then obtain ix1 where step: "visit_action source_bytes pkg v ix = Inr ix1"
      and rest: "run_visits source_bytes pkg vs ix1 = Inr ix'"
    by (auto split: sum.splits)
  show ?case
    using grows_to_trans [OF visit_action_grows [OF step] Cons.IH [OF rest]] .
qed

lemma run_visits_wf:
  "run_visits source_bytes pkg vs ix = Inr ix' \<Longrightarrow> registry_wf ix \<Longrightarrow> registry_wf ix'"
proof (induction vs arbitrary: ix)
  case Nil
  then show ?case by simp
next
  case (Cons v vs)
  then obtain ix1 where step: "visit_action source_bytes pkg v ix = Inr ix1"
      and rest: "run_visits source_bytes pkg vs ix1 = Inr ix'"
    by (auto split: sum.splits)
  show ?case
    using Cons.IH [OF rest visit_action_wf [OF step Cons.prems(2)]] .
qed

lemma run_visits_keys:
  "run_visits source_bytes pkg vs ix = Inr ix' \<Longrightarrow>
     dict_keys (classes ix') =
       dict_keys (classes ix) \<union> (\<Union>v \<in> set vs. registered_by source_bytes pkg v)"
proof (induction vs arbitrary: ix)
  case Nil
  then show ?case by simp
next
  case (Cons v vs)
  then obtain ix1 where step: "visit_action source_bytes pkg v ix = Inr ix1"
      and rest: "run_visits source_bytes pkg vs ix1 = Inr ix'"
    by (auto split: sum.splits)
  show ?case
    using Cons.IH [OF rest] visit_action_keys [OF step] by auto
qed

subsection \<open>Totality under the stack invariant\<close>

lemma stack_registered_grows:
  "stack_registered pkg ix chain \<Longrightarrow> grows_to ix ix' \<Longrightarrow> stack_registered pkg ix' chain"
  by (auto simp: stack_registered_def dict_contains_keys dest: grows_to_keys)

lemma visit_action_total:
  assumes "stack_registered pkg ix chain"
  shows "\<exists>ix'. visit_action source_bytes pkg (n, chain) ix = Inr ix'"
proof (cases "class_name_node n")
  case (Some name_node)
  then show ?thesis by (simp add: visit_action_def)
next
  case None
  show ?thesis
  proof (cases "chain = []")
    case True
    then show ?thesis using None by (simp add: visit_action_def index_method_empty)
  next
    case False
    then obtain cls where "dict_get (classes ix) (fqcn pkg (map fst chain)) = Some cls"
      using assms by (auto simp: stack_registered_def dict_contains_get)
    then show ?thesis
      using None False by (simp add: visit_action_def index_method_registered)
  qed
qed

lemma enter_scope_registered:
  assumes "visit_action source_bytes pkg (n, chain) ix = Inr ix'"
    and "stack_registered pkg ix chain"
  shows "stack_registered pkg ix' (enter_scope source_bytes chain n)"
proof (cases "class_name_node n")
  case None
  then show ?thesis
    using stack_registered_grows [OF assms(2) visit_action_grows [OF assms(1)]]
    by (simp add: enter_scope_def)
next
  case (Some name_node)
  then have "ix' = register_class
               (fqcn pkg (map fst (chain @ [class_frame source_bytes n name_node])))
               (class_frame source_bytes n name_node) ix"
    using assms(1) by (simp add: visit_action_def)
  then show ?thesis
    using Some
    by (simp add: enter_scope_def stack_registered_def dict_contains_keys register_class_keys)
qed

lemma lexical_visits_unfold:
  "lexical_visits source_bytes chain n =
     (n, chain) # concat (map (lexical_visits source_bytes (enter_scope source_bytes chain n))
                            (children n))"
  by (cases n) simp

lemma forest_total:
  assumes "\<And>k ix. k \<in> set ks \<Longrightarrow> stack_registered pkg ix chain \<Longrightarrow>
             \<exists>ix'. run_visits source_bytes pkg (lexical_visits source_bytes chain k) ix = Inr ix'"
    and "stack_registered pkg ix chain"
  shows "\<exists>ix'. run_visits source_bytes pkg
                 (concat (map (lexical_visits source_bytes chain) ks)) ix = Inr ix'"
  using assms
proof (induction ks arbitrary: ix)
  case Nil
  then show ?case by simp
next
  case (Cons k ks)
  obtain ix1 where first: "run_visits source_bytes pkg (lexical_visits source_bytes chain k) ix = Inr ix1"
    using Cons.prems(1) [of k ix] Cons.prems(2) by auto
  have "stack_registered pkg ix1 chain"
    using stack_registered_grows [OF Cons.prems(2) run_visits_grows [OF first]] .
  then obtain ix2 where
    "run_visits source_bytes pkg (concat (map (lexical_visits source_bytes chain) ks)) ix1 = Inr ix2"
    using Cons.IH [of ix1] Cons.prems(1) by auto
  then show ?case
    using first by (simp add: run_visits_append)
qed

lemma lexical_visits_total:
  "stack_registered pkg ix chain \<Longrightarrow>
     \<exists>ix'. run_visits source_bytes pkg (lexical_visits source_bytes chain n) ix = Inr ix'"
proof (induction n arbitrary: ix chain)
  case (Node f t sb eb p ks)
  let ?n = "Node f t sb eb p ks"
  obtain ix1 where step: "visit_action source_bytes pkg (?n, chain) ix = Inr ix1"
    using visit_action_total [OF Node.prems] by blast
  have inner: "stack_registered pkg ix1 (enter_scope source_bytes chain ?n)"
    using enter_scope_registered [OF step Node.prems] .
  have "\<exists>ix'. run_visits source_bytes pkg
          (concat (map (lexical_visits source_bytes (enter_scope source_bytes chain ?n)) ks)) ix1
        = Inr ix'"
    using forest_total [of ks pkg "enter_scope source_bytes chain ?n" source_bytes ix1]
      Node.IH inner by blast
  then show ?case
    using step by simp
qed

lemma append_split_point:
  assumes "xs @ ys = pre @ x # post"
  obtains post' where "xs = pre @ x # post'" "post = post' @ ys"
  | pre' where "pre = xs @ pre'" "ys = pre' @ x # post"
proof -
  from assms obtain us where
    "(xs = pre @ us \<and> us @ ys = x # post) \<or> (xs @ us = pre \<and> ys = us @ x # post)"
    by (auto simp: append_eq_append_conv2)
  then show ?thesis
  proof (elim disjE conjE)
    assume a: "xs = pre @ us" "us @ ys = x # post"
    show ?thesis
    proof (cases us)
      case Nil
      then show ?thesis using a that(2) [of "[]"] by simp
    next
      case (Cons u us')
      then show ?thesis using a that(1) [of us'] by simp
    qed
  next
    assume "xs @ us = pre" "ys = us @ x # post"
    then show ?thesis using that(2) [of us] by simp
  qed
qed

lemma forest_point:
  assumes elems: "\<And>k ix pre post. k \<in> set ks \<Longrightarrow> stack_registered pkg ix chain \<Longrightarrow>
             lexical_visits source_bytes chain k = pre @ (m, c) # post \<Longrightarrow>
             \<exists>ix1. run_visits source_bytes pkg pre ix = Inr ix1 \<and> stack_registered pkg ix1 c"
    and "stack_registered pkg ix chain"
    and "concat (map (lexical_visits source_bytes chain) ks) = pre @ (m, c) # post"
  shows "\<exists>ix1. run_visits source_bytes pkg pre ix = Inr ix1 \<and> stack_registered pkg ix1 c"
  using assms
proof (induction ks arbitrary: ix pre)
  case Nil
  then show ?case by simp
next
  case (Cons k ks)
  from Cons.prems(3)
  have "lexical_visits source_bytes chain k
          @ concat (map (lexical_visits source_bytes chain) ks) = pre @ (m, c) # post"
    by simp
  then show ?case
  proof (cases rule: append_split_point)
    case (1 post')
    then show ?thesis
      using Cons.prems(1) [of k ix pre post'] Cons.prems(2) by simp
  next
    case (2 pre')
    obtain ix1 where first:
      "run_visits source_bytes pkg (lexical_visits source_bytes chain k) ix = Inr ix1"
      using lexical_visits_total [OF Cons.prems(2)] by blast
    have reg1: "stack_registered pkg ix1 chain"
      using stack_registered_grows [OF Cons.prems(2) run_visits_grows [OF first]] .
    have "\<exists>ix2. run_visits source_bytes pkg pre' ix1 = Inr ix2 \<and> stack_registered pkg ix2 c"
    proof (rule Cons.IH [OF _ reg1 2(2)])
      fix k' ix' pre'' post''
      assume "k' \<in> set ks" "stack_registered pkg ix' chain"
        "lexical_visits source_bytes chain k' = pre'' @ (m, c) # post''"
      then show "\<exists>ix1. run_visits source_bytes pkg pre'' ix' = Inr ix1 \<and> stack_registered pkg ix1 c"
        using Cons.prems(1) [of k' ix' pre'' post''] by simp
    qed
    then show ?thesis
      using first 2(1) by (simp add: run_visits_append)
  qed
qed

lemma lexical_visits_point:
  assumes "stack_registered pkg ix chain"
    and "lexical_visits source_bytes chain n = pre @ (m, c) # post"
  shows "\<exists>ix1. run_visits source_bytes pkg pre ix = Inr ix1 \<and> stack_registered pkg ix1 c"
  using assms
proof (induction n arbitrary: ix chain pre post)
  case (Node f t sb eb p ks)
  let ?n = "Node f t sb eb p ks"
  let ?inner = "enter_scope source_bytes chain ?n"
  show ?case
  proof (cases pre)
    case Nil
    then have "(m, c) = (?n, chain)"
      using Node.prems(2) by simp
    then show ?thesis
      using Nil Node.prems(1) by simp
  next
    case (Cons v pre')
    then have v: "v = (?n, chain)"
      and forest: "concat (map (lexical_visits source_bytes ?inner) ks) = pre' @ (m, c) # post"
      using Node.prems(2) by simp_all
    obtain ix1 where step: "visit_action source_bytes pkg (?n, chain) ix = Inr ix1"
      using visit_action_total [OF Node.prems(1)] by blast
    have inner: "stack_registered pkg ix1 ?inner"
      using enter_scope_registered [OF step Node.prems(1)] .
    have "\<exists>ix2. run_visits source_bytes pkg pre' ix1 = Inr ix2 \<and> stack_registered pkg ix2 c"
    proof (rule forest_point [OF _ inner forest])
      fix k ix' pre'' post''
      assume "k \<in> set ks" "stack_registered pkg ix' ?inner"
        "lexical_visits source_bytes ?inner k = pre'' @ (m, c) # post''"
      then show "\<exists>ix1. run_visits source_bytes pkg pre'' ix' = Inr ix1 \<and> stack_registered pkg ix1 c"
        using Node.IH by blast
    qed
    then show ?thesis
      using step Cons v by simp
  qed
qed

lemma run_visits_records_method:
  assumes "run_visits source_bytes pkg vs ix = Inr ix'"
    and "(d, chain) \<in> set vs" and "class_name_node d = None" and "method_like d"
    and "chain \<noteq> []"
  shows "\<exists>ci'. dict_get (classes ix') (fqcn pkg (map fst chain)) = Some ci' \<and>
           build_method_info source_bytes d
             \<in> set (methods_named ci' (mi_name (build_method_info source_bytes d)))"
  using assms(1,2)
proof (induction vs arbitrary: ix)
  case Nil
  then show ?case by simp
next
  case (Cons v vs)
  then obtain ix1 where step: "visit_action source_bytes pkg v ix = Inr ix1"
      and rest: "run_visits source_bytes pkg vs ix1 = Inr ix'"
    by (auto split: sum.splits)
  show ?case
  proof (cases "v = (d, chain)")
    case True
    let ?mi = "build_method_info source_bytes d"
    let ?fq = "fqcn pkg (map fst chain)"
    have "index_method source_bytes d pkg (ix, chain) = Inr ix1"
      using step assms(3,4) unfolding True by (simp add: visit_action_def)
    then obtain cls where cls: "dict_get (classes ix) ?fq = Some cls"
      and ix1: "ix1 = ix\<lparr>classes := dict_set (classes ix) ?fq (append_method cls ?mi)\<rparr>"
      using assms(5) by (auto elim: index_method_cases)
    have now: "dict_get (classes ix1) ?fq = Some (append_method cls ?mi)"
      by (simp add: ix1 dict_get_set)
    then obtain ci' where ci': "dict_get (classes ix') ?fq = Some ci'"
      and pre: "prefix (methods_named (append_method cls ?mi) (mi_name ?mi))
                       (methods_named ci' (mi_name ?mi))"
      using run_visits_grows [OF rest] unfolding grows_to_def by blast
    have "?mi \<in> set (methods_named (append_method cls ?mi) (mi_name ?mi))"
      by (simp add: methods_named_append_method)
    then have "?mi \<in> set (methods_named ci' (mi_name ?mi))"
      using pre set_mono_prefix by blast
    then show ?thesis using ci' by blast
  next
    case False
    then have "(d, chain) \<in> set vs" using Cons.prems(2) by simp
    then show ?thesis using Cons.IH [OF rest] by blast
  qed
qed

lemma collect_params_eq:
  "collect_params source_bytes ps params =
     params @ map (param_token source_bytes) (filter (\<lambda>p. ntype p = ''parameter'') ps)"
  by (induction ps arbitrary: params) (simp_all add: param_token_def)

lemma collect_calls_eq:
  "mi_calls (collect_calls_in_method source_bytes d method_info) =
     mi_calls method_info @ concat (map (call_records source_bytes) (mirrored_preorder d))"
  by (simp add: collect_calls_in_method_def collect_loop_eq)

lemma build_method_info_calls:
  "mi_calls (build_method_info source_bytes d) =
     concat (map (call_records source_bytes) (mirrored_preorder d))"
  by (simp add: build_method_info_def Let_def collect_calls_eq)

lemma build_method_info_name:
  "mi_name (build_method_info source_bytes n) =
     (case child_by_field_name n ''name'' of
        Some name_node \<Rightarrow> node_text source_bytes name_node | None \<Rightarrow> ''<anonymous>'')"
  by (simp add: build_method_info_def Let_def collect_calls_in_method_def)

lemma build_method_info_return_type:
  "mi_return_type (build_method_info source_bytes n) =
     (if ntype n = ''method_declaration''
      then map_option (node_text source_bytes) (child_by_field_name n ''type'') else None)"
  by (simp add: build_method_info_def Let_def collect_calls_in_method_def split: option.splits)

lemma build_method_info_params:
  "mi_params (build_method_info source_bytes n) =
     (case child_by_field_name n ''parameters'' of
        None \<Rightarrow> []
      | Some params_node \<Rightarrow>
          map (param_token source_bytes)
            (filter (\<lambda>p. ntype p = ''parameter'') (children params_node)))"
  by (simp add: build_method_info_def Let_def collect_calls_in_method_def collect_params_eq
      split: option.splits)

lemma set_mirrored_preorder: "set (mirrored_preorder n) = set (subtree_nodes n)"
  using mset_mirrored_preorder [of n] by (metis set_mset_mset)

lemma subtree_nodes_self: "n \<in> set (subtree_nodes n)"
  by (cases n) simp

lemma subtree_nodes_trans:
  "d' \<in> set (subtree_nodes d) \<Longrightarrow> set (subtree_nodes d') \<subseteq> set (subtree_nodes d)"
proof (induction d)
  case (Node f t sb eb p ks)
  show ?case
  proof (cases "d' = Node f t sb eb p ks")
    case True
    then show ?thesis by simp
  next
    case False
    then obtain k where "k \<in> set ks" "d' \<in> set (subtree_nodes k)"
      using Node.prems by auto
    then have "set (subtree_nodes d') \<subseteq> set (subtree_nodes k)"
      using Node.IH by blast
    then show ?thesis
      using \<open>k \<in> set ks\<close> by auto
  qed
qed

lemma set_calls_subtree:
  "set (mi_calls (build_method_info source_bytes d)) =
     (\<Union>n \<in> set (subtree_nodes d). set (call_records source_bytes n))"
  by (simp add: build_method_info_calls set_mirrored_preorder)

lemma mset_calls_subtree:
  "mset (mi_calls (build_method_info source_bytes d)) =
     mset (concat (map (call_records source_bytes) (subtree_nodes d)))"
proof -
  have "mset (concat (map f xs)) = (\<Sum>x \<in># mset xs. mset (f x))" for f :: "node \<Rightarrow> MethodCall list" and xs
    by (induction xs) simp_all
  then show ?thesis
    by (simp add: build_method_info_calls mset_mirrored_preorder)
qed

lemma method_like_not_class: "method_like n \<Longrightarrow> class_name_node n = None"
  by (auto simp: method_like_def class_name_node_def)

lemma walk_total:
  assumes "stack_registered pkg ix class_stack"
  shows "\<exists>ix'. walk_and_index source_bytes n pkg (ix, class_stack) = Inr (ix', class_stack)"
  using lexical_visits_total [OF assms, of source_bytes n]
    walk_lexical_aux [of source_bytes n pkg "(ix, class_stack)"]
  by (auto split: sum.splits)

lemma walk_lexical:
  "walk_and_index source_bytes n pkg (ix, class_stack) =
     (case run_visits source_bytes pkg (lexical_visits source_bytes class_stack n) ix of
        Inl e \<Rightarrow> Inl e
      | Inr ix' \<Rightarrow> Inr (ix', class_stack))"
  using walk_lexical_aux [of source_bytes n pkg "(ix, class_stack)"]
  by (simp split: sum.splits)

lemma index_source_total: "\<exists>ix'. index_source source_bytes root ix = Inr ix'"
proof -
  have "stack_registered pkg ix1 []" for pkg ix1
    by (simp add: stack_registered_def)
  then have "\<exists>ix'. walk_and_index source_bytes root pkg (ix1, []) = Inr (ix', [])" for pkg ix1
    by (rule walk_total)
  then show ?thesis
    unfolding index_source_def Let_def
    by (metis (no_types, lifting) old.prod.case sum.case(2))
qed

lemma index_source_as_visits:
  assumes "index_source source_bytes root ix = Inr ix'"
  shows "\<exists>ix1. classes ix1 = classes ix \<and>
       run_visits source_bytes (find_package source_bytes root)
         (lexical_visits source_bytes [] root) ix1 = Inr ix'"
proof -
  let ?pkg = "find_package source_bytes root"
  let ?ix1 = "case ?pkg of None \<Rightarrow> ix
              | Some p \<Rightarrow> if p = [] then ix else ix\<lparr>packages := insert p (packages ix)\<rparr>"
  have same: "classes ?ix1 = classes ix"
    by (simp split: option.splits)
  have "index_source source_bytes root ix =
          (case run_visits source_bytes ?pkg (lexical_visits source_bytes [] root) ?ix1 of
             Inl e \<Rightarrow> Inl e | Inr ix2 \<Rightarrow> Inr ix2)"
    by (simp add: index_source_def Let_def walk_lexical split: sum.splits)
  then have "run_visits source_bytes ?pkg (lexical_visits source_bytes [] root) ?ix1 = Inr ix'"
    using assms by (simp split: sum.splits)
  then show ?thesis
    using same by blast
qed

subsection \<open>Methods appended to a registered class\<close>

lemma methods_for_key_Nil: "methods_for_key source_bytes pkg [] k m = []"
  by (simp add: methods_for_key_def)

lemma methods_for_key_Cons:
  "methods_for_key source_bytes pkg (v # vs) k m =
     methods_for_key source_bytes pkg [v] k m @ methods_for_key source_bytes pkg vs k m"
  by (simp add: methods_for_key_def)

lemma class_not_method_like: "class_name_node n = Some x \<Longrightarrow> \<not> method_like n"
  by (auto simp: method_like_def class_name_node_def split: if_splits)

lemma register_class_get_known:
  "dict_get (classes ix) k = Some ci \<Longrightarrow> dict_get (classes (register_class fq fr ix)) k = Some ci"
  by (auto simp: register_class_classes dict_get_set dict_contains_get)

lemma visit_action_methods:
  assumes "visit_action source_bytes pkg v ix = Inr ix1"
    and "dict_get (classes ix) k = Some ci"
  shows "\<exists>ci1. dict_get (classes ix1) k = Some ci1 \<and> same_entity ci ci1 \<and>
           (\<forall>m. methods_named ci1 m
                  = methods_named ci m @ methods_for_key source_bytes pkg [v] k m)"
proof -
  obtain n chain where v: "v = (n, chain)" by (cases v)
  from assms(1) [unfolded v] show ?thesis
  proof (cases rule: visit_action_cases)
    case (1 name_node)
    have "methods_for_key source_bytes pkg [v] k m = []" for m
      using class_not_method_like [OF 1(1)] by (simp add: methods_for_key_def v)
    then show ?thesis
      using register_class_get_known [OF assms(2)] 1(2) same_entity_refl by auto
  next
    case 2
    from 2(3) show ?thesis
    proof (cases rule: index_method_cases)
      case 1
      then show ?thesis
        using assms(2) same_entity_refl by (auto simp: methods_for_key_def v)
    next
      case (2 cls)
      let ?mi = "build_method_info source_bytes n"
      let ?fq = "fqcn pkg (map fst chain)"
      show ?thesis
      proof (cases "?fq = k")
        case True
        then have cls: "cls = ci" using 2(2) assms(2) by simp
        have "dict_get (classes ix1) k = Some (append_method ci ?mi)"
          using True by (simp add: 2(3) dict_get_set cls)
        moreover have "methods_named (append_method ci ?mi) m
                  = methods_named ci m @ methods_for_key source_bytes pkg [v] k m" for m
          using True 2(1) \<open>method_like n\<close>
          by (simp add: methods_named_append_method methods_for_key_def v)
        ultimately show ?thesis
          using same_entity_append_method by blast
      next
        case False
        then have "dict_get (classes ix1) k = Some ci"
          using assms(2) by (auto simp: 2(3) dict_get_set)
        moreover have "methods_for_key source_bytes pkg [v] k m = []" for m
          using False by (simp add: methods_for_key_def v)
        ultimately show ?thesis
          using same_entity_refl by auto
      qed
    qed
  next
    case 3
    then show ?thesis
      using assms(2) same_entity_refl by (auto simp: methods_for_key_def v)
  qed
qed

lemma run_visits_methods:
  assumes "run_visits source_bytes pkg vs ix = Inr ix'"
    and "dict_get (classes ix) k = Some ci"
  shows "\<exists>ci'. dict_get (classes ix') k = Some ci' \<and> same_entity ci ci' \<and>
           (\<forall>m. methods_named ci' m
                  = methods_named ci m @ methods_for_key source_bytes pkg vs k m)"
  using assms
proof (induction vs arbitrary: ix ci)
  case Nil
  then show ?case
    by (auto simp: methods_for_key_Nil same_entity_refl)
next
  case (Cons v vs)
  then obtain ix1 where step: "visit_action source_bytes pkg v ix = Inr ix1"
      and rest: "run_visits source_bytes pkg vs ix1 = Inr ix'"
    by (auto split: sum.splits)
  obtain ci1 where ci1: "dict_get (classes ix1) k = Some ci1" "same_entity ci ci1"
      "\<forall>m. methods_named ci1 m = methods_named ci m @ methods_for_key source_bytes pkg [v] k m"
    using visit_action_methods [OF step Cons.prems(2)] by blast
  obtain ci' where ci': "dict_get (classes ix') k = Some ci'" "same_entity ci1 ci'"
      "\<forall>m. methods_named ci' m = methods_named ci1 m @ methods_for_key source_bytes pkg vs k m"
    using Cons.IH [OF rest ci1(1)] by blast
  have "\<forall>m. methods_named ci' m
          = methods_named ci m @ methods_for_key source_bytes pkg (v # vs) k m"
    using ci1(3) ci'(3) methods_for_key_Cons [of source_bytes pkg v vs k] by simp
  then show ?case
    using ci'(1) same_entity_trans [OF ci1(2) ci'(2)] by blast
qed

lemma lexical_visits_prefix:
  "(d, c) \<in> set (lexical_visits source_bytes chain n) \<Longrightarrow> prefix chain c"
proof (induction n arbitrary: chain)
  case (Node f t sb eb p ks)
  let ?n = "Node f t sb eb p ks"
  show ?case
  proof (cases "(d, c) = (?n, chain)")
    case True
    then show ?thesis by simp
  next
    case False
    then obtain k where "k \<in> set ks"
      "(d, c) \<in> set (lexical_visits source_bytes (enter_scope source_bytes chain ?n) k)"
      using Node.prems by auto
    then have "prefix (enter_scope source_bytes chain ?n) c"
      using Node.IH by blast
    moreover have "prefix chain (enter_scope source_bytes chain ?n)"
      by (simp add: enter_scope_def split: option.splits)
    ultimately show ?thesis
      using prefix_order.order_trans by blast
  qed
qed

lemma str_join_append:
  "xs \<noteq> [] \<Longrightarrow> ys \<noteq> [] \<Longrightarrow> str_join sep (xs @ ys) = str_join sep xs @ sep @ str_join sep ys"
proof (induction sep xs rule: str_join.induct)
  case (1 sep)
  then show ?case by simp
next
  case (2 sep x)
  then show ?case by (cases ys) simp_all
next
  case (3 sep x y ys')
  then show ?case by simp
qed

lemma fqcn_extension:
  assumes "prefix inner c" and "inner \<noteq> []"
    and "fqcn pkg (map fst c) = fqcn pkg (map fst inner)"
  shows "c = inner"
proof (rule ccontr)
  assume "c \<noteq> inner"
  then obtain more where c: "c = inner @ more" and more: "more \<noteq> []"
    using assms(1) by (auto simp: prefix_def)
  have "str_join ''.'' (map fst c)
        = str_join ''.'' (map fst inner) @ ''.'' @ str_join ''.'' (map fst more)"
    using assms(2) more by (simp add: c str_join_append)
  then have "length (fqcn pkg (map fst c)) > length (fqcn pkg (map fst inner))"
    by (simp add: fqcn_def)
  then show False using assms(3) by simp
qed

subsection \<open>What the method extractor stores\<close>

lemma index_method_signature:
  assumes "class_stack \<noteq> []"
    and "dict_get (classes ix) (fqcn pkg (map fst class_stack)) = Some cls"
  shows "\<exists>ix' cls' mi.
           index_method source_bytes n pkg (ix, class_stack) = Inr ix'
         \<and> dict_get (classes ix') (fqcn pkg (map fst class_stack)) = Some cls'
         \<and> methods_named cls' (mi_name mi) = methods_named cls (mi_name mi) @ [mi]
         \<and> mi_name mi = (case child_by_field_name n ''name'' of
                           Some name_node \<Rightarrow> node_text source_bytes name_node
                         | None \<Rightarrow> ''<anonymous>'')
         \<and> mi_return_type mi =
             (if ntype n = ''constructor_declaration'' then None
              else if ntype n = ''method_declaration''
              then map_option (node_text source_bytes) (child_by_field_name n ''type'')
              else None)
         \<and> mi_params mi =
             (case child_by_field_name n ''parameters'' of
                None \<Rightarrow> []
              | Some params_node \<Rightarrow>
                  map (param_token source_bytes)
                    (filter (\<lambda>p. ntype p = ''parameter'') (children params_node)))"
proof -
  let ?mi = "build_method_info source_bytes n"
  let ?fq = "fqcn pkg (map fst class_stack)"
  let ?ix' = "ix\<lparr>classes := dict_set (classes ix) ?fq (append_method cls ?mi)\<rparr>"
  have "index_method source_bytes n pkg (ix, class_stack) = Inr ?ix'"
    using index_method_registered [OF assms] .
  moreover have "dict_get (classes ?ix') ?fq = Some (append_method cls ?mi)"
    by (simp add: dict_get_set)
  moreover have "methods_named (append_method cls ?mi) (mi_name ?mi)
                 = methods_named cls (mi_name ?mi) @ [?mi]"
    by (simp add: methods_named_append_method)
  moreover have "mi_return_type ?mi =
             (if ntype n = ''constructor_declaration'' then None
              else if ntype n = ''method_declaration''
              then map_option (node_text source_bytes) (child_by_field_name n ''type'')
              else None)"
    by (simp add: build_method_info_return_type)
  ultimately show ?thesis
    using build_method_info_name [of source_bytes n] build_method_info_params [of source_bytes n]
    by blast
qed

subsection \<open>The keys that indexing a unit adds\<close>

lemma index_source_keys:
  assumes "registry_wf ix"
  shows "\<exists>ix'. index_source source_bytes root ix = Inr ix'
         \<and> registry_wf ix'
         \<and> dict_keys (classes ix') =
             dict_keys (classes ix) \<union>
             {(case find_package source_bytes root of
                 None \<Rightarrow> [] | Some p \<Rightarrow> if p = [] then [] else p @ ''.'')
              @ str_join ''.'' (map fst chain @ [node_text source_bytes name_node])
              | n chain name_node.
                (n, chain) \<in> set (lexical_visits source_bytes [] root)
                \<and> class_name_node n = Some name_node}"
proof -
  obtain ix' where run: "index_source source_bytes root ix = Inr ix'"
    using index_source_total by blast
  let ?pkg = "find_package source_bytes root"
  let ?vs = "lexical_visits source_bytes [] root"
  obtain ix1 where ix1: "classes ix1 = classes ix"
    and visits: "run_visits source_bytes ?pkg ?vs ix1 = Inr ix'"
    using index_source_as_visits [OF run] by blast
  have "registry_wf ix1"
    using assms ix1 by (simp add: registry_wf_def)
  then have wf: "registry_wf ix'"
    using run_visits_wf [OF visits] by simp
  have "(\<Union>v \<in> set ?vs. registered_by source_bytes ?pkg v) =
        {(case ?pkg of None \<Rightarrow> [] | Some p \<Rightarrow> if p = [] then [] else p @ ''.'')
         @ str_join ''.'' (map fst chain @ [node_text source_bytes name_node])
         | n chain name_node. (n, chain) \<in> set ?vs \<and> class_name_node n = Some name_node}"
    by (auto simp: registered_by_def fqcn_def split: option.splits) force+
  then have "dict_keys (classes ix') = dict_keys (classes ix) \<union>
        {(case ?pkg of None \<Rightarrow> [] | Some p \<Rightarrow> if p = [] then [] else p @ ''.'')
         @ str_join ''.'' (map fst chain @ [node_text source_bytes name_node])
         | n chain name_node. (n, chain) \<in> set ?vs \<and> class_name_node n = Some name_node}"
    using run_visits_keys [OF visits] ix1 by simp
  then show ?thesis
    using run wf by blast
qed

text \<open>Unfolding the model on a concrete input.\<close>

lemmas model_defs = index_source_def find_package_def child_by_field_name_def node_text_def
  node_point_def class_name_node_def method_like_def class_frame_def register_class_def
  fqcn_def dict_contains_def dict_set_def dict_get_def index_method_def build_method_info_def
  collect_calls_in_method_def collect_loop_eq call_records_def append_method_def Let_def

section \<open>The claims\<close>

subsection \<open>C1: a class declared twice\<close>

text \<open>
  C1, as stated, says that when a class declaration's FQCN is already registered the
  existing \<open>ClassInfo\<close> is kept unchanged and the methods of the second occurrence are
  lost. The code keeps the entity but looks the class up by the same FQCN when it indexes
  the second occurrence's methods, so they are appended to it. Indexing
  \<open>class A{void m(){}}class A{void n(){}}\<close> leaves one class \<open>A\<close> that holds both
  \<open>m\<close> and \<open>n\<close>.
\<close>

theorem duplicate_class_methods_are_merged:
  "index_source dup_src dup_root empty_indexer =
     Inr \<lparr>packages = {},
          classes =
            [(''A'',
              \<lparr>ci_simple_name = ''A'', ci_fqcn = ''A'', ci_line = 0, ci_col = 0,
               ci_methods =
                 [(''m'', [\<lparr>mi_name = ''m'', mi_params = [], mi_return_type = Some ''void'',
                            mi_line = 0, mi_col = 8, mi_calls = []\<rparr>]),
                  (''n'', [\<lparr>mi_name = ''n'', mi_params = [], mi_return_type = Some ''void'',
                            mi_line = 0, mi_col = 27, mi_calls = []\<rparr>])]\<rparr>)]\<rparr>"
  by (simp add: dup_src_def dup_root_def dup_second_def dup_second_name_def empty_indexer_def
      model_defs)

text \<open>
  C1, amended: for a class declaration whose FQCN is already registered, the walk of the
  declaration does not raise and returns the class stack it was given; the class
  registered under that FQCN keeps its simple name, its \<open>fqcn\<close> and its location; and
  for every method name its list of overloads afterwards is the list it had before,
  followed by the \<open>MethodInfo\<close>s of the method and constructor declarations of that name
  whose enclosing chain is the second occurrence, in source order, and nothing else.
\<close>

theorem duplicate_class_keeps_entity_appends_methods:
  assumes "class_name_node n = Some name_node"
    and "dict_get (classes ix)
           (fqcn pkg (map fst (class_stack @ [class_frame source_bytes n name_node]))) = Some ci"
  shows "\<exists>ix' ci'.
           walk_and_index source_bytes n pkg (ix, class_stack) = Inr (ix', class_stack)
         \<and> dict_get (classes ix')
              (fqcn pkg (map fst (class_stack @ [class_frame source_bytes n name_node]))) = Some ci'
         \<and> ci_simple_name ci' = ci_simple_name ci \<and> ci_fqcn ci' = ci_fqcn ci
         \<and> ci_line ci' = ci_line ci \<and> ci_col ci' = ci_col ci
         \<and> (\<forall>m. methods_named ci' m =
                  methods_named ci m
                  @ methods_in_scope source_bytes (lexical_visits source_bytes class_stack n)
                      (class_stack @ [class_frame source_bytes n name_node]) m)"
proof -
  let ?inner = "class_stack @ [class_frame source_bytes n name_node]"
  let ?fq = "fqcn pkg (map fst ?inner)"
  let ?vs = "lexical_visits source_bytes class_stack n"
  let ?forest = "concat (map (lexical_visits source_bytes ?inner) (children n))"
  have scope: "enter_scope source_bytes class_stack n = ?inner"
    using assms(1) by (simp add: enter_scope_def)
  have vs: "?vs = (n, class_stack) # ?forest"
    using lexical_visits_unfold [of source_bytes class_stack n] scope by simp
  have known: "dict_contains (classes ix) ?fq"
    using assms(2) by (simp add: dict_contains_get)
  then have "register_class ?fq (class_frame source_bytes n name_node) ix = ix"
    by (rule register_class_known)
  then have first: "visit_action source_bytes pkg (n, class_stack) ix = Inr ix"
    using assms(1) by (simp add: visit_action_def)
  have "stack_registered pkg ix ?inner"
    using known by (simp add: stack_registered_def)
  then obtain ix' where forest: "run_visits source_bytes pkg ?forest ix = Inr ix'"
    using forest_total [of "children n" pkg ?inner source_bytes ix] lexical_visits_total
    by blast
  then have run: "run_visits source_bytes pkg ?vs ix = Inr ix'"
    using first vs by simp
  then have walk: "walk_and_index source_bytes n pkg (ix, class_stack) = Inr (ix', class_stack)"
    by (simp add: walk_lexical)
  obtain ci' where ci': "dict_get (classes ix') ?fq = Some ci'" "same_entity ci ci'"
      "\<forall>m. methods_named ci' m = methods_named ci m @ methods_for_key source_bytes pkg ?vs ?fq m"
    using run_visits_methods [OF run assms(2)] by blast
  have same: "(method_like (fst v) \<and> snd v \<noteq> [] \<and> fqcn pkg (map fst (snd v)) = ?fq)
              = (method_like (fst v) \<and> snd v = ?inner)" if v: "v \<in> set ?vs" for v
  proof (cases "v = (n, class_stack)")
    case True
    then show ?thesis
      using class_not_method_like [OF assms(1)] by simp
  next
    case False
    then obtain k where "k \<in> set (children n)"
      "v \<in> set (lexical_visits source_bytes ?inner k)"
      using v vs by auto
    then have pre: "prefix ?inner (snd v)"
      using lexical_visits_prefix [of "fst v" "snd v" source_bytes ?inner k] by simp
    have ne: "?inner \<noteq> []"
      by simp
    have nonempty: "snd v \<noteq> []"
      using pre ne by (cases "snd v") simp_all
    have ext: "snd v = ?inner" if "fqcn pkg (map fst (snd v)) = ?fq"
      using fqcn_extension [OF pre ne that] .
    show ?thesis
    proof (cases "snd v = ?inner")
      case True
      then show ?thesis by simp
    next
      case False
      then show ?thesis using ext by blast
    qed
  qed
  have feq: "filter (\<lambda>v. method_like (fst v) \<and> snd v \<noteq> []
                            \<and> fqcn pkg (map fst (snd v)) = ?fq) ?vs
             = filter (\<lambda>v. method_like (fst v) \<and> snd v = ?inner) ?vs"
    by (rule filter_cong [OF refl]) (rule same)
  have keyed: "methods_for_key source_bytes pkg ?vs ?fq m
               = methods_in_scope source_bytes ?vs ?inner m" for m
    unfolding methods_for_key_def methods_in_scope_def feq ..
  have "\<forall>m. methods_named ci' m =
          methods_named ci m @ methods_in_scope source_bytes ?vs ?inner m"
    using ci'(3) keyed by simp
  then show ?thesis
    using walk ci'(1) ci'(2) unfolding same_entity_def by blast
qed

text \<open>
  Witness for C1: the second class of \<open>dup_src\<close>, walked after the first. Class \<open>A\<close>
  keeps \<open>m\<close> and gains \<open>n\<close>.
\<close>

theorem duplicate_class_witness:
  "class_name_node dup_second = Some dup_second_name
   \<and> dict_get (classes dup_first_index)
         (fqcn None (map fst ([] @ [class_frame dup_src dup_second dup_second_name])))
       = Some dup_first_class
   \<and> (\<exists>ix' ci'.
         walk_and_index dup_src dup_second None (dup_first_index, []) = Inr (ix', [])
       \<and> dict_get (classes ix') ''A'' = Some ci'
       \<and> ci_col ci' = 0
       \<and> methods_named ci' ''m'' =
           [\<lparr>mi_name = ''m'', mi_params = [], mi_return_type = Some ''void'',
             mi_line = 0, mi_col = 8, mi_calls = []\<rparr>]
       \<and> methods_named ci' ''n'' =
           [\<lparr>mi_name = ''n'', mi_params = [], mi_return_type = Some ''void'',
             mi_line = 0, mi_col = 27, mi_calls = []\<rparr>])"
proof -
  have h1: "class_name_node dup_second = Some dup_second_name"
    by (simp add: dup_second_def dup_second_name_def class_name_node_def
        child_by_field_name_def)
  have key: "fqcn None (map fst ([] @ [class_frame dup_src dup_second dup_second_name])) = ''A''"
    by (simp add: dup_src_def dup_second_name_def class_frame_def node_text_def fqcn_def)
  have h2: "dict_get (classes dup_first_index)
              (fqcn None (map fst ([] @ [class_frame dup_src dup_second dup_second_name])))
            = Some dup_first_class"
    unfolding key by (simp add: dup_first_index_def dict_get_def)
  have m: "methods_in_scope dup_src (lexical_visits dup_src [] dup_second)
             ([] @ [class_frame dup_src dup_second dup_second_name]) ''m'' = []"
    by (simp add: methods_in_scope_def dup_src_def dup_second_def dup_second_name_def
        enter_scope_def model_defs)
  have n: "methods_in_scope dup_src (lexical_visits dup_src [] dup_second)
             ([] @ [class_frame dup_src dup_second dup_second_name]) ''n'' =
           [\<lparr>mi_name = ''n'', mi_params = [], mi_return_type = Some ''void'',
             mi_line = 0, mi_col = 27, mi_calls = []\<rparr>]"
    by (simp add: methods_in_scope_def dup_src_def dup_second_def dup_second_name_def
        enter_scope_def model_defs)
  have old: "methods_named dup_first_class ''m'' =
           [\<lparr>mi_name = ''m'', mi_params = [], mi_return_type = Some ''void'',
             mi_line = 0, mi_col = 8, mi_calls = []\<rparr>]"
    "methods_named dup_first_class ''n'' = []" "ci_col dup_first_class = 0"
    by (simp_all add: methods_named_def dup_first_class_def dict_get_def)
  obtain ix' ci' where
    "walk_and_index dup_src dup_second None (dup_first_index, []) = Inr (ix', [])"
    "dict_get (classes ix') ''A'' = Some ci'" "ci_col ci' = ci_col dup_first_class"
    "\<forall>m. methods_named ci' m = methods_named dup_first_class m
            @ methods_in_scope dup_src (lexical_visits dup_src [] dup_second)
                ([] @ [class_frame dup_src dup_second dup_second_name]) m"
    using duplicate_class_keeps_entity_appends_methods [OF h1 h2] unfolding key by blast
  then show ?thesis
    using h1 h2 m n old by auto
qed

subsection \<open>C2: the order of a method's calls\<close>

text \<open>
  C2, as stated, says that the calls of a method are in source occurrence order
  (pre-order over the declaration's subtree). The worklist pops its last element and
  pushes children in order, so siblings are visited last to first. For
  \<open>void m(){a();b();}\<close> the index holds \<open>b\<close> before \<open>a\<close>, while pre-order gives
  \<open>a\<close> before \<open>b\<close>.
\<close>

theorem calls_not_in_source_order:
  "index_source order_src order_root empty_indexer =
     Inr \<lparr>packages = {},
          classes =
            [(''A'',
              \<lparr>ci_simple_name = ''A'', ci_fqcn = ''A'', ci_line = 0, ci_col = 0,
               ci_methods =
                 [(''m'', [\<lparr>mi_name = ''m'', mi_params = [], mi_return_type = Some ''void'',
                            mi_line = 0, mi_col = 8,
                            mi_calls =
                              [\<lparr>mc_name = ''b'', mc_receiver = None, mc_line = 0, mc_col = 21\<rparr>,
                               \<lparr>mc_name = ''a'', mc_receiver = None, mc_line = 0, mc_col = 17\<rparr>]\<rparr>])]\<rparr>)]\<rparr>
   \<and> concat (map (call_records order_src) (subtree_nodes order_method)) =
       [\<lparr>mc_name = ''a'', mc_receiver = None, mc_line = 0, mc_col = 17\<rparr>,
        \<lparr>mc_name = ''b'', mc_receiver = None, mc_line = 0, mc_col = 21\<rparr>]"
  by (simp add: order_src_def order_root_def order_method_def empty_indexer_def model_defs)

text \<open>
  C2, amended: the collector appends to the calls of the \<open>MethodInfo\<close> the records of the
  invocation and construction nodes of the declaration's subtree in mirrored pre-order
  (a node before its descendants, the subtrees of siblings from the last to the first);
  so the calls of an indexed declaration are exactly these records, and they are the
  records of source occurrence order up to their order (equal as multisets).
\<close>

theorem calls_in_mirrored_preorder:
  "mi_calls (collect_calls_in_method source_bytes d method_info) =
     mi_calls method_info @ concat (map (call_records source_bytes) (mirrored_preorder d))
   \<and> mi_calls (build_method_info source_bytes d) =
       concat (map (call_records source_bytes) (mirrored_preorder d))
   \<and> mset (mi_calls (build_method_info source_bytes d)) =
       mset (concat (map (call_records source_bytes) (subtree_nodes d)))"
  by (simp only: collect_calls_eq build_method_info_calls [symmetric] mset_calls_subtree simp_thms)

text \<open>Witness for C2: the method of \<open>order_src\<close>.\<close>

theorem calls_in_mirrored_preorder_witness:
  "mi_calls (build_method_info order_src order_method) =
     [\<lparr>mc_name = ''b'', mc_receiver = None, mc_line = 0, mc_col = 21\<rparr>,
      \<lparr>mc_name = ''a'', mc_receiver = None, mc_line = 0, mc_col = 17\<rparr>]"
proof -
  have "concat (map (call_records order_src) (mirrored_preorder order_method)) =
     [\<lparr>mc_name = ''b'', mc_receiver = None, mc_line = 0, mc_col = 21\<rparr>,
      \<lparr>mc_name = ''a'', mc_receiver = None, mc_line = 0, mc_col = 17\<rparr>]"
    by (simp add: order_src_def order_method_def call_records_def child_by_field_name_def
        node_text_def node_point_def)
  then show ?thesis
    using calls_in_mirrored_preorder [of order_src order_method] by simp
qed

subsection \<open>C3: calls of one method in the list of another\<close>

text \<open>
  C3, as stated, says that no call record of one declaration's body is in the calls of
  another declaration, also when one is nested in the other through a local class. The
  collector walks the whole subtree of a declaration, and the walk still indexes the
  declarations nested in it. For \<open>void m(){class L{void g(){f();}}}\<close> the call of
  \<open>f\<close> at column 34 is in the calls of \<open>g\<close> and in the calls of \<open>m\<close>.
\<close>

theorem nested_method_calls_shared:
  "index_source nested_src nested_root empty_indexer =
     Inr \<lparr>packages = {},
          classes =
            [(''A'',
              \<lparr>ci_simple_name = ''A'', ci_fqcn = ''A'', ci_line = 0, ci_col = 0,
               ci_methods =
                 [(''m'', [\<lparr>mi_name = ''m'', mi_params = [], mi_return_type = Some ''void'',
                            mi_line = 0, mi_col = 8,
                            mi_calls =
                              [\<lparr>mc_name = ''f'', mc_receiver = None, mc_line = 0, mc_col = 34\<rparr>]\<rparr>])]\<rparr>),
             (''A.L'',
              \<lparr>ci_simple_name = ''L'', ci_fqcn = ''A.L'', ci_line = 0, ci_col = 17,
               ci_methods =
                 [(''g'', [\<lparr>mi_name = ''g'', mi_params = [], mi_return_type = Some ''void'',
                            mi_line = 0, mi_col = 25,
                            mi_calls =
                              [\<lparr>mc_name = ''f'', mc_receiver = None, mc_line = 0, mc_col = 34\<rparr>]\<rparr>])]\<rparr>)]\<rparr>"
  by (simp add: nested_src_def nested_root_def nested_outer_def nested_inner_def empty_indexer_def
      model_defs)

text \<open>
  C3, amended: the calls of the \<open>MethodInfo\<close> of a declaration are exactly the records
  of the invocation and construction nodes of that declaration's own subtree; so the
  calls of a declaration nested in it are among them, and no record comes from a node
  outside the subtree.
\<close>

theorem calls_from_own_subtree:
  "set (mi_calls (build_method_info source_bytes d)) =
     (\<Union>n \<in> set (subtree_nodes d). set (call_records source_bytes n))
   \<and> (\<forall>d'. d' \<in> set (subtree_nodes d) \<longrightarrow>
         set (mi_calls (build_method_info source_bytes d'))
           \<subseteq> set (mi_calls (build_method_info source_bytes d)))"
proof (intro conjI allI impI)
  show "set (mi_calls (build_method_info source_bytes d)) =
     (\<Union>n \<in> set (subtree_nodes d). set (call_records source_bytes n))"
    by (rule set_calls_subtree)
next
  fix d'
  assume "d' \<in> set (subtree_nodes d)"
  then have "set (subtree_nodes d') \<subseteq> set (subtree_nodes d)"
    by (rule subtree_nodes_trans)
  then show "set (mi_calls (build_method_info source_bytes d'))
           \<subseteq> set (mi_calls (build_method_info source_bytes d))"
    unfolding set_calls_subtree by blast
qed

text \<open>Witness for C3: the two methods of \<open>nested_src\<close>.\<close>

theorem calls_from_own_subtree_witness:
  "nested_inner \<in> set (subtree_nodes nested_outer)
   \<and> set (mi_calls (build_method_info nested_src nested_inner))
       \<subseteq> set (mi_calls (build_method_info nested_src nested_outer))"
proof -
  have h: "nested_inner \<in> set (subtree_nodes nested_outer)"
    by (simp add: nested_outer_def subtree_nodes_self)
  show ?thesis
    using calls_from_own_subtree [of nested_src nested_outer] h by blast
qed

subsection \<open>C4: a file that cannot be read\<close>

text \<open>
  C4 says that a read or parse failure of one file does not abort the batch: a warning
  is written and the other files are indexed. \<open>index_directory\<close> catches the exception,
  but its handler writes to \<open>sys.stderr\<close> in a module that never imports \<open>sys\<close>: the
  handler raises \<open>NameError\<close>, and the batch stops at the first file that fails, with
  nothing written and the files after it not indexed.
\<close>

theorem index_directory_aborts_on_first_failure:
  "index_directory (empty_indexer, [])
     [(''repo'', ''Broken.java'', Inl (OSError ''Permission denied'')),
      (''repo'', ''A.java'', Inr (dup_src, dup_root))]
   = Inl (NameError ''sys'')"
  by (simp add: warn_failed_def directory_scanning_globals_def suffix_to_prefix)

subsection \<open>C5: the FQCN of a registered class\<close>

text \<open>
  C5 says that the FQCN of a registered class is the unit's package, a dot, and the
  dot-joined simple names of the enclosing class declarations and its own. The code means
  to do so (\<open>_find_package\<close>: "Grabs the package name from a 'package_declaration' node
  if present"; \<open>_walk_and_index\<close>: "Compute FQCN: package + outer.inner.Simple"), but it
  asks the package declaration for a child under the field \<open>name\<close>, and the Java grammar
  hangs the package name below a \<open>package_declaration\<close> under no field. So
  \<open>_find_package\<close> finds no package in any unit: for \<open>package com.acme;class A{}\<close> the
  package set stays empty and the class is registered as \<open>A\<close>, not \<open>com.acme.A\<close>.
\<close>

theorem declared_package_is_not_prefixed:
  "index_source pkg_src pkg_root \<lparr>packages = {}, classes = []\<rparr> =
     Inr \<lparr>packages = {},
          classes = [(''A'', \<lparr>ci_simple_name = ''A'', ci_fqcn = ''A'', ci_line = 0,
                              ci_col = 17, ci_methods = []\<rparr>)]\<rparr>"
  by (simp add: pkg_src_def pkg_root_def model_defs)

subsection \<open>C6: the class stack follows the lexical scope\<close>

text \<open>
  C6: the walk, which pushes a frame at a class declaration (a \<open>class_declaration\<close>
  node with a name field), walks its children and pops, has the effect of visiting every
  node of the tree in pre-order with the class stack equal to the chain of class
  declarations that lexically enclose the node; and whenever the walk of a node
  returns, the class stack is the one it was given.
\<close>

theorem walk_keeps_stack_in_lexical_scope:
  "walk_and_index source_bytes n pkg (ix, class_stack) =
     (case run_visits source_bytes pkg (lexical_visits source_bytes class_stack n) ix of
        Inl e \<Rightarrow> Inl e
      | Inr ix' \<Rightarrow> Inr (ix', class_stack))
   \<and> (\<forall>ix' class_stack'.
         walk_and_index source_bytes n pkg (ix, class_stack) = Inr (ix', class_stack')
           \<longrightarrow> class_stack' = class_stack)"
proof -
  have eq: "walk_and_index source_bytes n pkg (ix, class_stack) =
     (case run_visits source_bytes pkg (lexical_visits source_bytes class_stack n) ix of
        Inl e \<Rightarrow> Inl e
      | Inr ix' \<Rightarrow> Inr (ix', class_stack))"
    by (rule walk_lexical)
  then show ?thesis
    by (auto split: sum.splits)
qed

text \<open>Witness for C6: the second class of \<open>dup_src\<close>, walked after the first.\<close>

theorem walk_keeps_stack_witness:
  "walk_and_index dup_src dup_second None (dup_first_index, []) = Inr (dup_both_index, [])
   \<and> run_visits dup_src None (lexical_visits dup_src [] dup_second) dup_first_index
       = Inr dup_both_index"
proof -
  have h: "walk_and_index dup_src dup_second None (dup_first_index, []) = Inr (dup_both_index, [])"
    by (simp add: dup_src_def dup_second_def dup_second_name_def dup_first_index_def
        dup_first_class_def dup_both_index_def model_defs)
  show ?thesis
    using walk_keeps_stack_in_lexical_scope [of dup_src dup_second None dup_first_index "[]"] h
    by (simp split: sum.splits)
qed

subsection \<open>C7: a method outside any class\<close>

text \<open>
  C7, as stated, says that for a method or constructor declaration met with an empty
  class stack the registry is exactly what it would be had the declaration not been
  present. The extractor skips the declaration, but the walk goes on into its children
  ("Still walk inside so we catch nested declarations"), so a class declared in its body
  is registered. Indexing \<open>interface I{default void m(){class L{}}}\<close> registers \<open>L\<close>;
  the same unit without \<open>m\<close> registers nothing.
\<close>

theorem skipped_method_still_registers_local_class:
  "index_source local_src local_root \<lparr>packages = {}, classes = []\<rparr> =
     Inr \<lparr>packages = {},
          classes = [(''L'', \<lparr>ci_simple_name = ''L'', ci_fqcn = ''L'', ci_line = 0,
                              ci_col = 29, ci_methods = []\<rparr>)]\<rparr>
   \<and> index_source bare_src bare_root \<lparr>packages = {}, classes = []\<rparr> =
       Inr \<lparr>packages = {}, classes = []\<rparr>"
  by (simp add: local_src_def local_root_def local_method_def bare_src_def bare_root_def
      model_defs)

text \<open>
  C7, amended: for a method or constructor declaration met with an empty class stack,
  indexing does not raise and creates no record for the declaration itself: the method
  extractor returns the index unchanged, and the walk of the declaration is exactly the
  walk of its children, so what the registry gains is what the declarations nested in
  it contribute.
\<close>

theorem method_outside_class_is_skipped:
  "index_method source_bytes n pkg (ix, []) = Inr ix
   \<and> (method_like n \<longrightarrow>
        walk_and_index source_bytes n pkg (ix, [])
          = walk_children source_bytes (children n) pkg (ix, []))
   \<and> (\<exists>ix'. walk_and_index source_bytes n pkg (ix, []) = Inr (ix', []))"
proof (intro conjI impI)
  show "index_method source_bytes n pkg (ix, []) = Inr ix"
    by (rule index_method_empty)
  show "\<exists>ix'. walk_and_index source_bytes n pkg (ix, []) = Inr (ix', [])"
    by (rule walk_total) (simp add: stack_registered_def)
next
  assume "method_like n"
  then show "walk_and_index source_bytes n pkg (ix, [])
          = walk_children source_bytes (children n) pkg (ix, [])"
    by (cases n) (simp add: method_like_not_class index_method_empty)
qed

text \<open>
  Witness for C7: the method of \<open>local_src\<close>, met with an empty stack; its walk is the
  walk of its children and registers the local class only.
\<close>

theorem method_outside_class_witness:
  "method_like local_method
   \<and> walk_and_index local_src local_method None (empty_indexer, [])
       = walk_children local_src (children local_method) None (empty_indexer, [])
   \<and> walk_and_index local_src local_method None (empty_indexer, []) =
       Inr (\<lparr>packages = {},
             classes = [(''L'', \<lparr>ci_simple_name = ''L'', ci_fqcn = ''L'', ci_line = 0,
                                 ci_col = 29, ci_methods = []\<rparr>)]\<rparr>, [])"
proof -
  have h: "method_like local_method"
    by (simp add: local_method_def method_like_def)
  have "walk_children local_src (children local_method) None (empty_indexer, []) =
       Inr (\<lparr>packages = {},
             classes = [(''L'', \<lparr>ci_simple_name = ''L'', ci_fqcn = ''L'', ci_line = 0,
                                 ci_col = 29, ci_methods = []\<rparr>)]\<rparr>, [])"
    by (simp add: local_src_def local_method_def empty_indexer_def model_defs)
  then show ?thesis
    using method_outside_class_is_skipped [of local_src local_method None empty_indexer] h
    by simp
qed

subsection \<open>C8: construction expressions\<close>

text \<open>
  C8: for a construction expression in the subtree of an indexed declaration, the
  collector's record is the single record whose name is \<open><init:\<close>, the text of the type
  field (\<open><anon>\<close> when there is none) and \<open>>\<close>, whose receiver is absent and whose
  location is the start point of the expression; it is among the calls of the
  declaration, whose records are those of the nodes of the subtree, each node once; the
  receiver is not the empty string; and the record differs from the record of every
  invocation whose callee name does not begin with \<open><init:\<close>, as no Java identifier
  does.
\<close>

theorem construction_yields_constructor_record:
  assumes "ntype n = ''object_creation_expression''" and "n \<in> set (subtree_nodes d)"
  shows "call_records source_bytes n =
           [\<lparr>mc_name = ''<init:'' @ (case child_by_field_name n ''type'' of
                                       Some type_node \<Rightarrow> node_text source_bytes type_node
                                     | None \<Rightarrow> ''<anon>'') @ ''>'',
             mc_receiver = None,
             mc_line = fst (start_point n), mc_col = snd (start_point n)\<rparr>]
         \<and> set (call_records source_bytes n) \<subseteq> set (mi_calls (build_method_info source_bytes d))
         \<and> mset (mi_calls (build_method_info source_bytes d)) =
             mset (concat (map (call_records source_bytes) (subtree_nodes d)))
         \<and> (\<forall>r \<in> set (call_records source_bytes n). mc_receiver r \<noteq> Some [])
         \<and> (\<forall>m. ntype m = ''method_invocation'' \<and>
                 (\<forall>name_node. child_by_field_name m ''name'' = Some name_node
                    \<longrightarrow> \<not> prefix ''<init:'' (node_text source_bytes name_node))
               \<longrightarrow> set (call_records source_bytes m) \<inter> set (call_records source_bytes n) = {})"
proof (intro conjI allI impI)
  show rec: "call_records source_bytes n =
           [\<lparr>mc_name = ''<init:'' @ (case child_by_field_name n ''type'' of
                                       Some type_node \<Rightarrow> node_text source_bytes type_node
                                     | None \<Rightarrow> ''<anon>'') @ ''>'',
             mc_receiver = None,
             mc_line = fst (start_point n), mc_col = snd (start_point n)\<rparr>]"
    using assms(1) by (simp add: call_records_def node_point_def)
  show "set (call_records source_bytes n) \<subseteq> set (mi_calls (build_method_info source_bytes d))"
    unfolding set_calls_subtree using assms(2) by blast
  show "mset (mi_calls (build_method_info source_bytes d)) =
             mset (concat (map (call_records source_bytes) (subtree_nodes d)))"
    by (rule mset_calls_subtree)
  show "\<forall>r \<in> set (call_records source_bytes n). mc_receiver r \<noteq> Some []"
    by (simp add: rec)
next
  fix m
  assume m: "ntype m = ''method_invocation'' \<and>
                 (\<forall>name_node. child_by_field_name m ''name'' = Some name_node
                    \<longrightarrow> \<not> prefix ''<init:'' (node_text source_bytes name_node))"
  have "\<not> prefix ''<init:'' (mc_name r)" if "r \<in> set (call_records source_bytes m)" for r
    using that m by (auto simp: call_records_def split: option.splits)
  moreover have "prefix ''<init:'' (mc_name r)" if "r \<in> set (call_records source_bytes n)" for r
    using that assms(1) by (auto simp: call_records_def)
  ultimately show "set (call_records source_bytes m) \<inter> set (call_records source_bytes n) = {}"
    by blast
qed

text \<open>Witness for C8: \<open>new Foo(bar)\<close> in the method of \<open>new_src\<close>.\<close>

theorem construction_witness:
  "ntype new_expression = ''object_creation_expression''
   \<and> new_expression \<in> set (subtree_nodes new_method)
   \<and> call_records new_src new_expression =
       [\<lparr>mc_name = ''<init:Foo>'', mc_receiver = None, mc_line = 0, mc_col = 17\<rparr>]"
proof -
  have h1: "ntype new_expression = ''object_creation_expression''"
    by (simp add: new_expression_def)
  have h2: "new_expression \<in> set (subtree_nodes new_method)"
    by (simp add: new_method_def subtree_nodes_self)
  have "call_records new_src new_expression =
          [\<lparr>mc_name = ''<init:'' @ (case child_by_field_name new_expression ''type'' of
                                       Some type_node \<Rightarrow> node_text new_src type_node
                                     | None \<Rightarrow> ''<anon>'') @ ''>'',
             mc_receiver = None,
             mc_line = fst (start_point new_expression),
             mc_col = snd (start_point new_expression)\<rparr>]"
    using construction_yields_constructor_record [OF h1 h2, of new_src] by blast
  then have "call_records new_src new_expression =
       [\<lparr>mc_name = ''<init:Foo>'', mc_receiver = None, mc_line = 0, mc_col = 17\<rparr>]"
    by (simp add: new_expression_def new_src_def child_by_field_name_def node_text_def)
  then show ?thesis
    using h1 h2 by blast
qed

subsection \<open>C9: the signature of an indexed method\<close>

text \<open>
  C9 says that the extractor records the name, the return type (absent for a
  constructor) and one \<open><type> <name>\<close> token per parameter. Name and return type are
  recorded. For the parameters the code means to do so (its comments: the parameters
  node is \<open>"(" [parameter ("," parameter)*] ")"\<close>, and a parameter "has 'type' and
  'name' fields"), but it keeps the children of kind \<open>parameter\<close> only, and the Java
  grammar gives a parameter the kind \<open>formal_parameter\<close>. So no parameter is ever
  recorded: for \<open>void m(int a){}\<close> the params of \<open>m\<close> are empty, not \<open>int a\<close>.
\<close>

theorem formal_parameters_are_not_extracted:
  "index_source param_src param_root \<lparr>packages = {}, classes = []\<rparr> =
     Inr \<lparr>packages = {},
          classes =
            [(''A'',
              \<lparr>ci_simple_name = ''A'', ci_fqcn = ''A'', ci_line = 0, ci_col = 0,
               ci_methods =
                 [(''m'', [\<lparr>mi_name = ''m'', mi_params = [], mi_return_type = Some ''void'',
                            mi_line = 0, mi_col = 8, mi_calls = []\<rparr>])]\<rparr>)]\<rparr>"
  by (simp add: param_src_def param_root_def model_defs)

subsection \<open>C10: the class lookup of the method extractor\<close>

text \<open>
  C10: indexing a unit never raises, in particular no \<open>KeyError\<close> from the class lookup
  of the method extractor; and at every node the walk visits under a non-empty class
  stack, the walk so far has not raised and the FQCN of the stack is a key of the class
  map reached so far.
\<close>

theorem class_lookup_never_fails:
  "(\<exists>ix'. index_source source_bytes root ix = Inr ix')
   \<and> (\<forall>pre n chain post.
         lexical_visits source_bytes [] root = pre @ (n, chain) # post \<and> chain \<noteq> []
         \<longrightarrow> (\<exists>ix1. run_visits source_bytes pkg pre ix = Inr ix1
                  \<and> dict_contains (classes ix1) (fqcn pkg (map fst chain))))"
proof (intro conjI allI impI)
  show "\<exists>ix'. index_source source_bytes root ix = Inr ix'"
    by (rule index_source_total)
next
  fix pre n chain post
  assume a: "lexical_visits source_bytes [] root = pre @ (n, chain) # post \<and> chain \<noteq> []"
  have "stack_registered pkg ix []"
    by (simp add: stack_registered_def)
  then obtain ix1 where "run_visits source_bytes pkg pre ix = Inr ix1"
    "stack_registered pkg ix1 chain"
    using lexical_visits_point a by blast
  then show "\<exists>ix1. run_visits source_bytes pkg pre ix = Inr ix1
                  \<and> dict_contains (classes ix1) (fqcn pkg (map fst chain))"
    using a by (auto simp: stack_registered_def)
qed

text \<open>Witness for C10: the token after which the body of the second class of \<open>dup_src\<close> starts.\<close>

theorem class_lookup_witness:
  "(\<exists>post. lexical_visits dup_src [] dup_second =
            [(dup_second, [])] @ (Node None ''class'' 19 24 (0, 19) [], [(''A'', 0, 19)]) # post)
   \<and> [(''A'', 0, 19)] \<noteq> ([] :: frame list)
   \<and> (\<exists>ix1. run_visits dup_src None [(dup_second, [])] empty_indexer = Inr ix1
            \<and> dict_contains (classes ix1) (fqcn None (map fst [(''A'', 0 :: nat, 19 :: nat)])))"
proof -
  have "\<exists>post. lexical_visits dup_src [] dup_second =
            [(dup_second, [])] @ (Node None ''class'' 19 24 (0, 19) [], [(''A'', 0, 19)]) # post"
    by (simp add: dup_second_def dup_second_name_def dup_src_def enter_scope_def
        class_name_node_def child_by_field_name_def class_frame_def node_text_def node_point_def)
  then obtain post where h: "lexical_visits dup_src [] dup_second =
            [(dup_second, [])] @ (Node None ''class'' 19 24 (0, 19) [], [(''A'', 0, 19)]) # post"
    by blast
  have "\<exists>ix1. run_visits dup_src None [(dup_second, [])] empty_indexer = Inr ix1
            \<and> dict_contains (classes ix1) (fqcn None (map fst [(''A'', 0 :: nat, 19 :: nat)]))"
    using class_lookup_never_fails [of dup_src dup_second empty_indexer None] h by blast
  then show ?thesis
    using h by blast
qed

end
